theory Spec2Isabelle
  imports
    Complex_Main
    "HOL-Library.Char_ord"
    "HOL-Library.List_Lexorder"
    "HOL-Library.Product_Lexorder"
begin

section \<open>PDF outline extractor (backend/round\_1A.py)\<close>

text \<open>
  A shallow embedding of the outline extractor. Conventions of the model:
  \<^item> Texts are ASCII strings. On ASCII, Unicode NFKC normalisation is the identity, the
    whitespace characters of \<^verbatim>\<open>\s\<close>, \<^verbatim>\<open>str.strip\<close> and \<^verbatim>\<open>str.split\<close> are
    TAB, LF, VT, FF, CR, FS, GS, RS, US and SPACE, and \<^verbatim>\<open>\d\<close> is \<^verbatim>\<open>0-9\<close>.
  \<^item> Python floats (font sizes, coordinates, ratios) are modelled as exact reals.
  \<^item> The PDF parser and the clustering library are outside the repository: the parsed
    document is the input of the model, and the clustering is a parameter.
\<close>

subsection \<open>Characters and strings\<close>

definition is_space :: "char \<Rightarrow> bool" where
  "is_space c = (c \<in> set [CHR 0x09, CHR 0x0A, CHR 0x0B, CHR 0x0C, CHR 0x0D,
                            CHR 0x1C, CHR 0x1D, CHR 0x1E, CHR 0x1F, CHR '' ''])"

definition is_digit :: "char \<Rightarrow> bool" where
  "is_digit c = (c \<in> set ''0123456789'')"

definition is_lower_c :: "char \<Rightarrow> bool" where
  "is_lower_c c = (c \<in> set ''abcdefghijklmnopqrstuvwxyz'')"

definition is_upper_c :: "char \<Rightarrow> bool" where
  "is_upper_c c = (c \<in> set ''ABCDEFGHIJKLMNOPQRSTUVWXYZ'')"

definition is_alpha :: "char \<Rightarrow> bool" where
  "is_alpha c = (is_lower_c c \<or> is_upper_c c)"

definition is_alnum :: "char \<Rightarrow> bool" where
  "is_alnum c = (is_alpha c \<or> is_digit c)"

definition char_lower :: "char \<Rightarrow> char" where
  "char_lower c =
     (case map_of (zip ''ABCDEFGHIJKLMNOPQRSTUVWXYZ'' ''abcdefghijklmnopqrstuvwxyz'') c of
        Some d \<Rightarrow> d
      | None \<Rightarrow> c)"

definition char_upper :: "char \<Rightarrow> char" where
  "char_upper c =
     (case map_of (zip ''abcdefghijklmnopqrstuvwxyz'' ''ABCDEFGHIJKLMNOPQRSTUVWXYZ'') c of
        Some d \<Rightarrow> d
      | None \<Rightarrow> c)"

text \<open>\<^verbatim>\<open>str.lower()\<close>, \<^verbatim>\<open>str.isupper()\<close>, \<^verbatim>\<open>str.endswith\<close>, \<^verbatim>\<open>str.startswith\<close>.\<close>

definition lower :: "string \<Rightarrow> string" where
  "lower s = map char_lower s"

definition str_isupper :: "string \<Rightarrow> bool" where
  "str_isupper s = (list_ex is_upper_c s \<and> \<not> list_ex is_lower_c s)"

definition endswith :: "string \<Rightarrow> string \<Rightarrow> bool" where
  "endswith s suf = (length suf \<le> length s \<and> drop (length s - length suf) s = suf)"

definition startswith :: "string \<Rightarrow> string \<Rightarrow> bool" where
  "startswith s pre = (take (length pre) s = pre)"

definition endswith_any :: "string \<Rightarrow> string list \<Rightarrow> bool" where
  "endswith_any s sufs = list_ex (endswith s) sufs"

text \<open>\<^verbatim>\<open>str.strip()\<close>, \<^verbatim>\<open>str.rstrip(chars)\<close> and \<^verbatim>\<open>str.split()\<close>.\<close>

definition strip :: "string \<Rightarrow> string" where
  "strip s = rev (dropWhile is_space (rev (dropWhile is_space s)))"

definition rstrip_chars :: "string \<Rightarrow> string \<Rightarrow> string" where
  "rstrip_chars cs s = rev (dropWhile (\<lambda>c. c \<in> set cs) (rev s))"

fun split_ws :: "string \<Rightarrow> string list" where
  "split_ws [] = []"
| "split_ws (c # cs) =
     (if is_space c then split_ws cs
      else (case cs of
              [] \<Rightarrow> [[c]]
            | d # _ \<Rightarrow>
                if is_space d then [c] # split_ws cs
                else (case split_ws cs of w # ws \<Rightarrow> (c # w) # ws | [] \<Rightarrow> [[c]])))"

text \<open>
  \<^verbatim>\<open>re.sub(r"\s+", " ", s)\<close>: every maximal run of whitespace becomes one space. A
  whitespace character followed by another one is dropped, the last of a run is
  replaced by the space.
\<close>

fun collapse_ws :: "string \<Rightarrow> string" where
  "collapse_ws [] = []"
| "collapse_ws [c] = (if is_space c then [CHR '' ''] else [c])"
| "collapse_ws (c # d # cs) =
     (if is_space c
      then (if is_space d then collapse_ws (d # cs) else CHR '' '' # collapse_ws (d # cs))
      else c # collapse_ws (d # cs))"

definition normalize_text :: "string \<Rightarrow> string" where
  "normalize_text s = strip (collapse_ws s)"

fun capitalize_first_letter :: "string \<Rightarrow> string" where
  "capitalize_first_letter [] = []"
| "capitalize_first_letter (c # cs) =
     (if is_alpha c then char_upper c # cs else c # capitalize_first_letter cs)"

subsection \<open>Regular expressions\<close>

text \<open>
  The patterns of the source use no back-references, look-arounds or inner anchors, so
  whether Python's \<^verbatim>\<open>re\<close> finds a match is membership in the pattern's language. The
  matcher below decides it by derivatives; \<open>lang\<close> is its specification.
\<close>

datatype rexp =
    Nomatch
  | Eps
  | Ch "char \<Rightarrow> bool"
  | Alt rexp rexp
  | Seq rexp rexp
  | Rep rexp

inductive_set kleene :: "string set \<Rightarrow> string set" for A :: "string set" where
  kleene_nil: "[] \<in> kleene A"
| kleene_app: "u \<in> A \<Longrightarrow> v \<in> kleene A \<Longrightarrow> u @ v \<in> kleene A"

fun lang :: "rexp \<Rightarrow> string set" where
  "lang Nomatch = {}"
| "lang Eps = {[]}"
| "lang (Ch p) = {[c] | c. p c}"
| "lang (Alt r s) = lang r \<union> lang s"
| "lang (Seq r s) = {u @ v | u v. u \<in> lang r \<and> v \<in> lang s}"
| "lang (Rep r) = kleene (lang r)"

fun nullable :: "rexp \<Rightarrow> bool" where
  "nullable Nomatch = False"
| "nullable Eps = True"
| "nullable (Ch p) = False"
| "nullable (Alt r s) = (nullable r \<or> nullable s)"
| "nullable (Seq r s) = (nullable r \<and> nullable s)"
| "nullable (Rep r) = True"

fun deriv :: "char \<Rightarrow> rexp \<Rightarrow> rexp" where
  "deriv c Nomatch = Nomatch"
| "deriv c Eps = Nomatch"
| "deriv c (Ch p) = (if p c then Eps else Nomatch)"
| "deriv c (Alt r s) = Alt (deriv c r) (deriv c s)"
| "deriv c (Seq r s) =
     (if nullable r then Alt (Seq (deriv c r) s) (deriv c s) else Seq (deriv c r) s)"
| "deriv c (Rep r) = Seq (deriv c r) (Rep r)"

fun matches :: "rexp \<Rightarrow> string \<Rightarrow> bool" where
  "matches r [] = nullable r"
| "matches r (c # cs) = matches (deriv c r) cs"

text \<open>Pattern syntax: literals, \<^verbatim>\<open>?\<close>, \<^verbatim>\<open>+\<close>, \<^verbatim>\<open>{n}\<close>, \<^verbatim>\<open>{m,n}\<close>, \<^verbatim>\<open>{m,}\<close>, classes.\<close>

definition chr :: "char \<Rightarrow> rexp" where
  "chr c = Ch (\<lambda>x. x = c)"

definition one_of :: "string \<Rightarrow> rexp" where
  "one_of cs = Ch (\<lambda>x. x \<in> set cs)"

definition none_of :: "string \<Rightarrow> rexp" where
  "none_of cs = Ch (\<lambda>x. x \<notin> set cs)"

definition any_char :: rexp where
  "any_char = Ch (\<lambda>x. True)"

definition digit :: rexp where
  "digit = Ch is_digit"

definition space :: rexp where
  "space = Ch is_space"

definition letter :: rexp where
  "letter = Ch is_alpha"

fun lit :: "string \<Rightarrow> rexp" where
  "lit [] = Eps"
| "lit (c # cs) = Seq (chr c) (lit cs)"

definition opt :: "rexp \<Rightarrow> rexp" where
  "opt r = Alt r Eps"

definition many1 :: "rexp \<Rightarrow> rexp" where
  "many1 r = Seq r (Rep r)"

fun exactly :: "nat \<Rightarrow> rexp \<Rightarrow> rexp" where
  "exactly 0 r = Eps"
| "exactly (Suc n) r = Seq r (exactly n r)"

fun at_most :: "nat \<Rightarrow> rexp \<Rightarrow> rexp" where
  "at_most 0 r = Eps"
| "at_most (Suc n) r = opt (Seq r (at_most n r))"

definition between :: "nat \<Rightarrow> nat \<Rightarrow> rexp \<Rightarrow> rexp" where
  "between m n r = Seq (exactly m r) (at_most (n - m) r)"

definition at_least :: "nat \<Rightarrow> rexp \<Rightarrow> rexp" where
  "at_least m r = Seq (exactly m r) (Rep r)"

fun seqs :: "rexp list \<Rightarrow> rexp" where
  "seqs [] = Eps"
| "seqs (r # rs) = Seq r (seqs rs)"

fun alts :: "rexp list \<Rightarrow> rexp" where
  "alts [] = Nomatch"
| "alts (r # rs) = Alt r (alts rs)"

text \<open>
  The calls of the source. \<^verbatim>\<open>re.fullmatch(p, s)\<close> matches the whole string;
  \<^verbatim>\<open>re.search(p, s)\<close> matches some substring; \<^verbatim>\<open>re.match('^p$', s)\<close> matches
  the whole string or all of it but a final newline (Python's \<^verbatim>\<open>$\<close>);
  \<^verbatim>\<open>re.match('^p', s)\<close> matches a prefix.
\<close>

definition re_fullmatch :: "rexp \<Rightarrow> string \<Rightarrow> bool" where
  "re_fullmatch r s = matches r s"

definition re_search :: "rexp \<Rightarrow> string \<Rightarrow> bool" where
  "re_search r s = matches (Seq (Rep any_char) (Seq r (Rep any_char))) s"

definition re_match_dollar :: "rexp \<Rightarrow> string \<Rightarrow> bool" where
  "re_match_dollar r s = matches (Seq r (opt (chr (CHR 0x0A)))) s"

definition re_match :: "rexp \<Rightarrow> string \<Rightarrow> bool" where
  "re_match r s = matches (Seq r (Rep any_char)) s"

subsection \<open>Noise and category classifiers\<close>

definition signature_words :: "string list" where
  "signature_words =
     [''date'', ''signature'', ''sign'', ''name'', ''witness'', ''seal'', ''stamp'',
      ''approved'', ''verified'', ''checked'', ''authorized'', ''place'']"

definition is_signature_field :: "string \<Rightarrow> bool" where
  "is_signature_field t =
     (let text = strip (lower (normalize_text t));
          clean_text = strip (rstrip_chars '':'' text)
      in clean_text \<in> set signature_words)"

definition form_labels :: "string list" where
  "form_labels =
     [''address'', ''phone'', ''email'', ''rsvp'', ''contact'', ''location'', ''venue'',
      ''time'', ''date'', ''when'', ''where'', ''who'', ''what'', ''details'', ''info'',
      ''information'', ''notice'', ''announcement'', ''warning'', ''attention'',
      ''note'', ''memo'', ''subject'', ''from'', ''to'', ''cc'', ''bcc'']"

definition is_form_label :: "string \<Rightarrow> bool" where
  "is_form_label t =
     (let text = strip (lower (normalize_text t));
          clean_text = strip (rstrip_chars '':'' text)
      in clean_text \<in> set form_labels)"

text \<open>
  The date patterns are matched with \<^verbatim>\<open>re.IGNORECASE\<close>; their classes
  (\<^verbatim>\<open>\d\<close>, \<^verbatim>\<open>\s\<close>, \<^verbatim>\<open>[A-Za-z]\<close>, \<^verbatim>\<open>[/-]\<close>) are closed under case, so the flag
  changes nothing.
\<close>

definition date_patterns :: "rexp list" where
  "date_patterns =
     [seqs [between 1 2 digit, many1 space, between 3 9 letter, many1 space, exactly 4 digit],
      seqs [between 1 2 digit, one_of ''/-'', between 1 2 digit, one_of ''/-'',
            between 2 4 digit],
      seqs [between 3 9 letter, many1 space, exactly 4 digit],
      exactly 4 digit]"

definition url_pattern :: rexp where
  "url_pattern =
     alts [lit ''www.'', lit ''.com'', lit ''.org'', lit ''.net'',
           seqs [lit ''http'', opt (chr CHR ''s''), lit ''://'']]"

definition page_patterns :: "rexp list" where
  "page_patterns =
     [seqs [lit ''page'', many1 space, many1 digit],
      seqs [lit ''figure'', many1 space, many1 digit],
      seqs [lit ''table'', many1 space, many1 digit],
      seqs [many1 digit, Rep space, chr CHR ''/'', Rep space, many1 digit]]"

definition is_noise_content :: "string \<Rightarrow> bool" where
  "is_noise_content t =
     (let text = normalize_text t in
      if text = [] \<or> length text < 2 then True
      else if re_fullmatch (many1 digit) text then True
      else if list_ex (\<lambda>pattern. re_fullmatch pattern text) date_patterns then True
      else if re_search url_pattern (lower text) then True
      else if re_fullmatch (seqs [chr CHR ''('', Rep (none_of '')''), chr CHR '')'']) text
        then True
      else if re_fullmatch (at_least 3 (one_of ''-_=*#~`^'')) text then True
      else if list_ex (\<lambda>pattern. re_search pattern (lower text)) page_patterns then True
      else if length (split_ws text) > 15 then True
      else if real (length (filter is_alnum text)) / real (length text) < 0.3 then True
      else False)"

definition is_valid_heading :: "string \<Rightarrow> bool" where
  "is_valid_heading t =
     (let text = normalize_text t in
      if \<not> list_ex is_alpha text then False
      else if endswith_any text [''.'', '';'', '','', ''!'', ''?''] then False
      else
        let word_count = length (split_ws text) in
        if word_count < 1 \<or> word_count > 12 then False
        else
          let first_word = (case split_ws text of [] \<Rightarrow> [] | w # _ \<Rightarrow> lower w) in
          if first_word \<in> set [''the'', ''a'', ''an'', ''this'', ''that''] then False
          else if is_signature_field text then False
          else True)"

definition is_valid_title :: "string \<Rightarrow> bool" where
  "is_valid_title t =
     (let text = normalize_text t in
      if \<not> list_ex is_alpha text then False
      else if is_form_label text \<or> is_signature_field text \<or> is_noise_content text
        then False
      else if endswith_any text [''.'', '';'', '','', ''?''] \<and> \<not> endswith text ''!''
        then False
      else
        let word_count = length (split_ws text) in
        if word_count < 1 \<or> word_count > 10 then False
        else True)"

definition serial_patterns :: "rexp list" where
  "serial_patterns =
     [seqs [lit ''sr'', opt (chr CHR ''.''), Rep space, lit ''no'', opt (chr CHR ''.'')],
      seqs [lit ''s'', opt (chr CHR ''.''), Rep space, lit ''no'', opt (chr CHR ''.'')],
      seqs [lit ''sl'', opt (chr CHR ''.''), Rep space, lit ''no'', opt (chr CHR ''.'')],
      seqs [lit ''serial'', Rep space, lit ''no'', opt (chr CHR ''.'')],
      seqs [lit ''no'', opt (chr CHR ''.'')],
      lit ''#'',
      seqs [lit ''item'', Rep space, lit ''no'', opt (chr CHR ''.'')],
      seqs [many1 digit, opt (chr CHR ''.'')],
      seqs [many1 digit, chr CHR '')''],
      seqs [many1 (one_of ''ivxlcdm''), opt (chr CHR ''.'')],
      seqs [many1 (one_of ''IVXLCDM''), opt (chr CHR ''.'')]]"

definition is_serial_number :: "string \<Rightarrow> bool" where
  "is_serial_number t =
     (let text = lower (normalize_text t)
      in list_ex (\<lambda>pattern. re_match_dollar pattern text) serial_patterns)"

definition paragraph_indicators :: "string list" where
  "paragraph_indicators =
     [''the'', ''and'', ''or'', ''but'', ''in'', ''on'', ''at'', ''by'', ''for'',
      ''with'', ''this'', ''that'', ''these'', ''those'']"

definition is_paragraph_content :: "string \<Rightarrow> bool" where
  "is_paragraph_content t =
     (let text = normalize_text t in
      if length (split_ws text) < 3 then False
      else if \<not> list_ex is_lower_c text then False
      else if is_noise_content text \<or> is_signature_field text then False
      else if endswith_any text [''.'', ''!'', ''?'', '';''] then True
      else if list_ex (\<lambda>word. word \<in> set (split_ws (lower text))) paragraph_indicators
        then True
      else if length (split_ws text) \<ge> 5 \<and> list_ex is_lower_c text \<and> list_ex is_upper_c text
        then True
      else False)"

subsection \<open>Data model\<close>

text \<open>
  A bounding box is \<open>(x0, y0, x1, y1)\<close>. A span is the parser's dictionary, whose keys
  may be absent. A line is the dictionary \<^verbatim>\<open>line_data\<close> built by the extraction loop
  (\<open>ltext\<close> and \<open>lsize\<close> are its keys \<^verbatim>\<open>text\<close> and \<^verbatim>\<open>size\<close>).
\<close>

type_synonym bbox = "real \<times> real \<times> real \<times> real"

definition bx0 :: "bbox \<Rightarrow> real" where "bx0 b = (case b of (x0, y0, x1, y1) \<Rightarrow> x0)"
definition by0 :: "bbox \<Rightarrow> real" where "by0 b = (case b of (x0, y0, x1, y1) \<Rightarrow> y0)"
definition bx1 :: "bbox \<Rightarrow> real" where "bx1 b = (case b of (x0, y0, x1, y1) \<Rightarrow> x1)"
definition by1 :: "bbox \<Rightarrow> real" where "by1 b = (case b of (x0, y0, x1, y1) \<Rightarrow> y1)"

record span =
  span_text :: "string option"
  span_size :: "real option"
  span_flags :: "nat option"

record line =
  ltext :: string
  lsize :: real
  is_bold :: bool
  bbox :: bbox
  page :: nat
  spans :: "span list"

datatype error = ZeroDivisionError | ValueError | IndexError | KeyError | StopIteration

subsection \<open>Table detector\<close>

text \<open>
  \<^verbatim>\<open>int(s)\<close> on a string of decimal digits. CPython refuses strings of more than 4300
  digits with a ValueError (its default \<^verbatim>\<open>int_max_str_digits\<close>).
\<close>

definition digit_val :: "char \<Rightarrow> nat" where
  "digit_val c = of_char c - 48"

definition py_int :: "string \<Rightarrow> error + int" where
  "py_int s =
     (if s = [] \<or> \<not> list_all is_digit s \<or> length s > 4300 then Inl ValueError
      else Inr (int (foldl (\<lambda>n c. 10 * n + digit_val c) 0 s)))"

text \<open>Python's \<^verbatim>\<open>round\<close>: to the nearest integer, halves to the even one.\<close>

definition py_round :: "real \<Rightarrow> int" where
  "py_round r =
     (let f = \<lfloor>r\<rfloor>; d = r - of_int f in
      if d < 1 / 2 then f
      else if d > 1 / 2 then f + 1
      else if even f then f else f + 1)"

text \<open>
  A dictionary of lists filled by \<^verbatim>\<open>if k not in d: d[k] = []; d[k].append(v)\<close>, kept
  in insertion order.
\<close>

fun group_insert :: "'k \<Rightarrow> 'v \<Rightarrow> ('k \<times> 'v list) list \<Rightarrow> ('k \<times> 'v list) list" where
  "group_insert k v [] = [(k, [v])]"
| "group_insert k v ((k', vs) # rest) =
     (if k = k' then (k', vs @ [v]) # rest else (k', vs) # group_insert k v rest)"

definition group_by :: "('v \<Rightarrow> 'k) \<Rightarrow> 'v list \<Rightarrow> ('k \<times> 'v list) list" where
  "group_by f xs = foldl (\<lambda>d x. group_insert (f x) x d) [] xs"

definition number_pattern :: rexp where
  "number_pattern = seqs [many1 digit, opt (chr CHR ''.'')]"

text \<open>
  The lists \<^verbatim>\<open>numbers\<close> and \<^verbatim>\<open>y_coords\<close> of one X-bucket, from its lines sorted by Y:
  only the lines whose stripped text is an integer with an optional final period
  contribute.
\<close>

fun numbered_lines :: "line list \<Rightarrow> int list \<times> real list" where
  "numbered_lines [] = ([], [])"
| "numbered_lines (l # ls) =
     (let (numbers, y_coords) = numbered_lines ls in
      if re_match_dollar number_pattern (strip (ltext l)) then
        (case py_int (rstrip_chars ''.'' (strip (ltext l))) of
           Inr num \<Rightarrow> (num # numbers, by0 (bbox l) # y_coords)
         | Inl e \<Rightarrow> (numbers, y_coords))
      else (numbers, y_coords))"

text \<open>The first index \<open>i\<close> with \<open>numbers[i+1] = numbers[i] + 1\<close> and
  \<open>numbers[i+2] = numbers[i] + 2\<close>, counted from \<open>i0\<close>.\<close>

fun find_run :: "int list \<Rightarrow> nat \<Rightarrow> nat option" where
  "find_run (a # b # c # rest) i0 =
     (if b = a + 1 \<and> c = a + 2 then Some i0 else find_run (b # c # rest) (Suc i0))"
| "find_run numbers i0 = None"

text \<open>The Y-coordinates one X-bucket adds to the set.\<close>

definition bucket_rows :: "line list \<Rightarrow> real list" where
  "bucket_rows x_lines =
     (if length x_lines < 3 then []
      else
        let (numbers, y_coords) = numbered_lines (sort_key (\<lambda>l. by0 (bbox l)) x_lines) in
        if length numbers \<ge> 3 then
          (case find_run numbers 0 of
             Some i \<Rightarrow> map (\<lambda>j. y_coords ! j) [i ..< min (i + 3) (length y_coords)]
           | None \<Rightarrow> [])
        else [])"

definition x_bucket :: "line \<Rightarrow> int" where
  "x_bucket l = py_round (bx0 (bbox l) / 10) * 10"

text \<open>The result is a Python set turned into a list of unspecified order: a set here.\<close>

definition detect_table_rows :: "line list \<Rightarrow> real set" where
  "detect_table_rows all_lines =
     (let table_y_coordinates =
            foldl (\<lambda>S l. if is_serial_number (ltext l) then insert (by0 (bbox l)) S else S)
              {} all_lines;
          page_lines = group_by page all_lines
      in foldl (\<lambda>S (p, lines).
                  foldl (\<lambda>S (x, x_lines). S \<union> set (bucket_rows x_lines))
                    S (group_by x_bucket lines))
           table_y_coordinates page_lines)"

definition is_in_table_row :: "bbox \<Rightarrow> real set \<Rightarrow> bool" where
  "is_in_table_row text_bbox table_y_coords =
     (if table_y_coords = {} then False
      else \<exists>table_y \<in> table_y_coords. \<bar>by0 text_bbox - table_y\<bar> \<le> 8)"

text \<open>The integer a bucket line contributes to \<^verbatim>\<open>numbers\<close>, if any.\<close>

definition line_number :: "line \<Rightarrow> int option" where
  "line_number l =
     (if re_match_dollar number_pattern (strip (ltext l)) then
        (case py_int (rstrip_chars ''.'' (strip (ltext l))) of
           Inr num \<Rightarrow> Some num
         | Inl e \<Rightarrow> None)
      else None)"

text \<open>
  The condition as the specification words it: three lines in a row of the Y-sorted
  bucket whose texts parse as \<open>n\<close>, \<open>n + 1\<close>, \<open>n + 2\<close>.
\<close>

fun three_consecutive_lines :: "line list \<Rightarrow> bool" where
  "three_consecutive_lines (a # b # c # rest) =
     ((case (line_number a, line_number b, line_number c) of
         (Some n, Some m, Some k) \<Rightarrow> m = n + 1 \<and> k = n + 2
       | _ \<Rightarrow> False)
      \<or> three_consecutive_lines (b # c # rest))"
| "three_consecutive_lines ls = False"

text \<open>Some three adjacent entries of \<^verbatim>\<open>numbers\<close> are \<open>n\<close>, \<open>n + 1\<close>, \<open>n + 2\<close>.\<close>

definition has_run :: "int list \<Rightarrow> bool" where
  "has_run ns = (\<exists>i. i + 2 < length ns \<and> ns ! (i + 1) = ns ! i + 1 \<and> ns ! (i + 2) = ns ! i + 2)"

subsection \<open>Parsed document and line extraction\<close>

text \<open>
  What the PDF parser hands over. A span is a dictionary whose keys may be absent; a
  raw line may lack its \<^verbatim>\<open>spans\<close> and \<^verbatim>\<open>bbox\<close>; a block without \<^verbatim>\<open>lines\<close>
  (an image block) is \<open>None\<close>; a page whose \<^verbatim>\<open>get_text\<close> raises has no blocks
  (\<open>None\<close>), and the loop skips it.
\<close>

record raw_line =
  rl_spans :: "span list option"
  rl_bbox :: "bbox option"

type_synonym block = "raw_line list option"

record pdf_page =
  pg_height :: real
  pg_blocks :: "block list option"

text \<open>\<^verbatim>\<open>span.get("flags", 0) & 16\<close>: bit 4 of the flags.\<close>

definition span_bold :: "span \<Rightarrow> bool" where
  "span_bold s = (case span_flags s of None \<Rightarrow> False | Some f \<Rightarrow> (f div 16) mod 2 = 1)"

fun list_max :: "real list \<Rightarrow> real" where
  "list_max [] = 0"
| "list_max (x # xs) = foldl max x xs"

fun list_min :: "real list \<Rightarrow> real" where
  "list_min [] = 0"
| "list_min (x # xs) = foldl min x xs"

definition line_data_of :: "nat \<Rightarrow> raw_line \<Rightarrow> line option" where
  "line_data_of page_num rl =
     (case rl_spans rl of
        None \<Rightarrow> None
      | Some sp \<Rightarrow>
          if sp = [] then None
          else
            let text = strip (concat (map (\<lambda>s. case span_text s of None \<Rightarrow> [] | Some t \<Rightarrow> t) sp))
            in if text = [] \<or> is_noise_content text then None
               else
                 let sizes = List.map_filter span_size sp
                 in if sizes = [] then None
                    else Some \<lparr>ltext = normalize_text text,
                               lsize = list_max sizes,
                               is_bold = list_ex span_bold sp,
                               bbox = (case rl_bbox rl of None \<Rightarrow> (0, 0, 0, 0) | Some b \<Rightarrow> b),
                               page = page_num,
                               spans = sp\<rparr>)"

definition page_lines_of :: "nat \<Rightarrow> pdf_page \<Rightarrow> line list" where
  "page_lines_of page_num pg =
     (case pg_blocks pg of
        None \<Rightarrow> []
      | Some blocks \<Rightarrow>
          List.map_filter (line_data_of page_num)
            (concat (map (\<lambda>b. case b of None \<Rightarrow> [] | Some ls \<Rightarrow> ls) blocks)))"

text \<open>
  The list \<^verbatim>\<open>all_lines\<close> after the page loop. The other accumulators of the loop are
  functions of it: \<^verbatim>\<open>font_sizes\<close> holds the sizes of the lines, \<^verbatim>\<open>bold_count\<close>
  counts the bold ones, \<^verbatim>\<open>first_page_elements\<close> are the lines of page 0.
\<close>

definition extract_lines :: "pdf_page list \<Rightarrow> line list" where
  "extract_lines pages =
     concat (map (\<lambda>(page_num, pg). page_lines_of page_num pg) (enumerate 0 pages))"

definition first_page_height :: "pdf_page list \<Rightarrow> real" where
  "first_page_height pages = (case pages of [] \<Rightarrow> 792 | pg # _ \<Rightarrow> pg_height pg)"

text \<open>\<^verbatim>\<open>np.median\<close> and \<^verbatim>\<open>np.mean\<close> of a non-empty list.\<close>

definition median :: "real list \<Rightarrow> real" where
  "median xs =
     (let s = sort xs; n = length xs in
      if odd n then s ! (n div 2) else (s ! (n div 2 - 1) + s ! (n div 2)) / 2)"

definition mean :: "real list \<Rightarrow> real" where
  "mean xs = sum_list xs / real (length xs)"

text \<open>
  Division by a NumPy float (the median) does not raise on zero: it yields an
  infinity or NaN, and every comparison with NaN is false.
\<close>

datatype npfloat = Finite real | PosInf | NegInf | NaN

definition np_div :: "real \<Rightarrow> real \<Rightarrow> npfloat" where
  "np_div a b =
     (if b \<noteq> 0 then Finite (a / b)
      else if a > 0 then PosInf else if a < 0 then NegInf else NaN)"

fun np_gt :: "npfloat \<Rightarrow> real \<Rightarrow> bool" where
  "np_gt (Finite x) c = (x > c)"
| "np_gt PosInf c = True"
| "np_gt NegInf c = False"
| "np_gt NaN c = False"

subsection \<open>Title extractor\<close>

text \<open>
  The score tuple \<^verbatim>\<open>(score, text, size)\<close> of one title candidate. The position ratio
  divides two Python floats and raises ZeroDivisionError when 60\% of the page height
  is zero.
\<close>

definition title_score :: "real \<Rightarrow> real \<Rightarrow> line \<Rightarrow> error + (int \<times> string \<times> real)" where
  "title_score median_size sixty_percent_height element =
     (let text = normalize_text (ltext element);
          size_ratio = np_div (lsize element) median_size;
          s1 = (if np_gt size_ratio 2.0 then 10
                else if np_gt size_ratio 1.5 then 8
                else if np_gt size_ratio 1.2 then 6 else 0);
          y_pos = by0 (bbox element)
      in if sixty_percent_height = 0 then Inl ZeroDivisionError
         else
           let position_ratio = y_pos / sixty_percent_height;
               s2 = (if position_ratio < 0.3 then 4 else if position_ratio < 0.6 then 2 else 0);
               s3 = (if is_bold element then 3 else 0);
               word_count = length (split_ws text);
               s4 = (if 1 \<le> word_count \<and> word_count \<le> 3 then 4
                     else if 4 \<le> word_count \<and> word_count \<le> 6 then 2
                     else if word_count > 10 then - 2 else 0);
               s5 = (if str_isupper text then 2 else 0);
               page_width = 612;
               x_center = bx0 (bbox element) + (bx1 (bbox element) - bx0 (bbox element)) / 2;
               s6 = (if \<bar>x_center - page_width / 2\<bar> < 100 then 2 else 0)
           in Inr (s1 + s2 + s3 + s4 + s5 + s6, text, lsize element))"

text \<open>Building a list in a loop whose body may raise: the first error ends it.\<close>

fun collect :: "('a \<Rightarrow> error + 'b) \<Rightarrow> 'a list \<Rightarrow> error + 'b list" where
  "collect f [] = Inr []"
| "collect f (x # xs) =
     (case f x of
        Inl e \<Rightarrow> Inl e
      | Inr y \<Rightarrow> (case collect f xs of Inl e \<Rightarrow> Inl e | Inr ys \<Rightarrow> Inr (y # ys)))"

text \<open>
  \<^verbatim>\<open>list.sort(reverse=True)\<close> without a key: Python reverses, sorts stably in
  ascending order and reverses again. Tuples compare lexicographically, strings by
  code point.
\<close>

definition sort_reverse :: "('a::linorder) list \<Rightarrow> 'a list" where
  "sort_reverse xs = rev (sort_key (\<lambda>x. x) (rev xs))"

definition extract_title :: "line list \<Rightarrow> real \<Rightarrow> real \<Rightarrow> error + string" where
  "extract_title first_page_elements median_size page_height =
     (if first_page_elements = [] then Inr []
      else
        let sixty_percent_height = page_height * 0.6;
            top_section_elements =
              filter (\<lambda>elem. by0 (bbox elem) \<le> sixty_percent_height) first_page_elements
        in if top_section_elements = [] then Inr []
           else
             let title_candidates =
                   filter (\<lambda>element.
                             let text = normalize_text (ltext element)
                             in is_valid_title text \<and>
                                \<not> (startswith text ''('' \<and> endswith text '')''))
                     top_section_elements
             in if title_candidates = [] then Inr []
                else
                  let largest_size = list_max (map lsize title_candidates);
                      largest_candidates =
                        filter (\<lambda>elem. lsize elem \<ge> largest_size - 1.0) title_candidates
                  in (case largest_candidates of
                        [only] \<Rightarrow> Inr (capitalize_first_letter (ltext only))
                      | _ \<Rightarrow>
                          (case collect (title_score median_size sixty_percent_height)
                                  largest_candidates of
                             Inl e \<Rightarrow> Inl e
                           | Inr scored_candidates \<Rightarrow>
                               (case sort_reverse scored_candidates of
                                  [] \<Rightarrow> Inr []
                                | (score, text, sz) # _ \<Rightarrow>
                                    Inr (capitalize_first_letter text)))))"

subsection \<open>Heading candidate scorer\<close>

text \<open>
  A candidate is the line's dictionary with the keys \<^verbatim>\<open>score\<close>,
  \<^verbatim>\<open>vertical_gap\<close>, \<^verbatim>\<open>size_ratio\<close> and, after the level assignment,
  \<^verbatim>\<open>level\<close> added.
\<close>

record candidate = line +
  score :: int
  vertical_gap :: real
  size_ratio :: npfloat
  level :: "string option"

definition numbered_marker :: rexp where
  "numbered_marker = seqs [many1 digit, one_of ''.)'', space]"

definition word_is_capitalized :: "string \<Rightarrow> bool" where
  "word_is_capitalized w = (case w of [] \<Rightarrow> False | c # _ \<Rightarrow> is_upper_c c)"

text \<open>The gap to the line before, which is \<open>prev\<close> (\<open>None\<close> for the first line).\<close>

definition vertical_gap_of :: "line option \<Rightarrow> line \<Rightarrow> real" where
  "vertical_gap_of prev l =
     (case prev of
        None \<Rightarrow> 0
      | Some p \<Rightarrow> if page p = page l then by0 (bbox l) - by1 (bbox p) else 0)"

definition heading_score :: "real \<Rightarrow> real \<Rightarrow> line option \<Rightarrow> line \<Rightarrow> int" where
  "heading_score median_size bold_frequency prev l =
     (let size_ratio = np_div (lsize l) median_size;
          vertical_gap = vertical_gap_of prev l;
          s1 = (if np_gt size_ratio 1.3 then 4
                else if np_gt size_ratio 1.15 \<and> is_bold l then 3
                else if is_bold l \<and> bold_frequency < 0.2 then 3 else 0);
          s2 = (if vertical_gap > 20 then 2 else 0);
          s3 = (if re_match numbered_marker (ltext l) then 3 else 0);
          words = split_ws (ltext l);
          s4 = (if length words \<le> 6 \<and> is_bold l then 2 else 0);
          title_ratio = real (length (filter word_is_capitalized words))
                          / real (max 1 (length words));
          s5 = (if title_ratio > 0.7 then 2 else 0)
      in s1 + s2 + s3 + s4 + s5)"

definition is_title_line :: "string \<Rightarrow> line \<Rightarrow> bool" where
  "is_title_line title_str l =
     (title_str \<noteq> [] \<and>
      lower (normalize_text (ltext l)) = lower (normalize_text title_str))"

definition candidate_of ::
  "string \<Rightarrow> real set \<Rightarrow> real \<Rightarrow> real \<Rightarrow> line option \<Rightarrow> line \<Rightarrow> candidate option" where
  "candidate_of title_str table_y_coords median_size bold_frequency prev l =
     (if is_title_line title_str l then None
      else if \<not> is_valid_heading (ltext l) then None
      else if is_in_table_row (bbox l) table_y_coords then None
      else
        let sc = heading_score median_size bold_frequency prev l
        in if sc \<ge> 4
           then Some (line.extend l
                        \<lparr>score = sc,
                         vertical_gap = vertical_gap_of prev l,
                         size_ratio = np_div (lsize l) median_size,
                         level = None\<rparr>)
           else None)"

text \<open>The loop over \<^verbatim>\<open>enumerate(all_lines)\<close>; \<open>prev\<close> is \<^verbatim>\<open>all_lines[i-1]\<close>.\<close>

fun scan_candidates ::
  "string \<Rightarrow> real set \<Rightarrow> real \<Rightarrow> real \<Rightarrow> line option \<Rightarrow> line list \<Rightarrow> candidate list" where
  "scan_candidates title_str tbl med bf prev [] = []"
| "scan_candidates title_str tbl med bf prev (l # ls) =
     (case candidate_of title_str tbl med bf prev l of
        None \<Rightarrow> scan_candidates title_str tbl med bf (Some l) ls
      | Some c \<Rightarrow> c # scan_candidates title_str tbl med bf (Some l) ls)"

subsection \<open>Candidate refiner\<close>

definition has_consistent_formatting :: "span list \<Rightarrow> bool" where
  "has_consistent_formatting sp =
     (if sp = [] \<or> length sp = 1 then True
      else
        let font_sizes = List.map_filter span_size sp
        in if length font_sizes > 1 \<and> list_max font_sizes - list_min font_sizes > 1.5
           then False
           else if length (remdups (map span_bold sp)) > 1 then False
           else True)"

definition filter_inconsistent_formatting :: "candidate list \<Rightarrow> candidate list" where
  "filter_inconsistent_formatting candidates =
     filter (\<lambda>c. has_consistent_formatting (spans c)) candidates"

text \<open>
  The inner loop of the horizontal filter, over the candidates after the current one
  with their indices: it collects \<^verbatim>\<open>horizontal_neighbors\<close> and stops at another
  page or below the tolerance band.
\<close>

fun scan_neighbors :: "nat set \<Rightarrow> candidate \<Rightarrow> (nat \<times> candidate) list \<Rightarrow> nat list" where
  "scan_neighbors skip_indices current [] = []"
| "scan_neighbors skip_indices current ((j, other) # rest) =
     (if j \<in> skip_indices then scan_neighbors skip_indices current rest
      else if page other \<noteq> page current then []
      else if \<bar>by0 (bbox other) - by0 (bbox current)\<bar> \<le> 10
        then (if bx0 (bbox other) - bx1 (bbox current) \<ge> 50
              then j # scan_neighbors skip_indices current rest
              else scan_neighbors skip_indices current rest)
      else if by0 (bbox other) > by0 (bbox current) + 10 then []
      else scan_neighbors skip_indices current rest)"

text \<open>
  The outer loop; the result \<^verbatim>\<open>filtered\<close> keeps the index of each candidate it
  appends.
\<close>

fun filter_loop :: "nat set \<Rightarrow> (nat \<times> candidate) list \<Rightarrow> (nat \<times> candidate) list" where
  "filter_loop skip_indices [] = []"
| "filter_loop skip_indices ((i, current) # rest) =
     (if i \<in> skip_indices then filter_loop skip_indices rest
      else
        let horizontal_neighbors = scan_neighbors skip_indices current rest
        in if horizontal_neighbors \<noteq> []
           then filter_loop (skip_indices \<union> set horizontal_neighbors) rest
           else (i, current) # filter_loop skip_indices rest)"

text \<open>
  The set \<^verbatim>\<open>skip_indices\<close> after the first \<open>k\<close> iterations of the outer loop.
\<close>

fun skip_indices_at :: "nat set \<Rightarrow> (nat \<times> candidate) list \<Rightarrow> nat \<Rightarrow> nat set" where
  "skip_indices_at skip_indices xs 0 = skip_indices"
| "skip_indices_at skip_indices [] (Suc k) = skip_indices"
| "skip_indices_at skip_indices ((i, current) # rest) (Suc k) =
     (if i \<in> skip_indices then skip_indices_at skip_indices rest k
      else
        let horizontal_neighbors = scan_neighbors skip_indices current rest
        in if horizontal_neighbors \<noteq> []
           then skip_indices_at (skip_indices \<union> set horizontal_neighbors) rest k
           else skip_indices_at skip_indices rest k)"

definition candidates_sorted :: "candidate list \<Rightarrow> candidate list" where
  "candidates_sorted candidates =
     sort_key (\<lambda>x. (page x, by0 (bbox x), bx0 (bbox x))) candidates"

definition filter_horizontal_table_headers :: "candidate list \<Rightarrow> candidate list" where
  "filter_horizontal_table_headers candidates =
     (if candidates = [] \<or> length candidates < 2 then candidates
      else map snd (filter_loop {} (enumerate 0 (candidates_sorted candidates))))"

text \<open>
  \<^verbatim>\<open>has_paragraph_below\<close>: the loop over the lines after the heading looks at no more
  than \<^verbatim>\<open>max_distance = 15\<close> of them.
\<close>

fun paragraph_scan :: "nat \<Rightarrow> string set \<Rightarrow> line list \<Rightarrow> bool" where
  "paragraph_scan heading_page candidate_texts [] = False"
| "paragraph_scan heading_page candidate_texts (next_line # rest) =
     (if page next_line > heading_page + 2 then False
      else if ltext next_line \<in> candidate_texts
        then paragraph_scan heading_page candidate_texts rest
      else if is_paragraph_content (ltext next_line) then True
      else paragraph_scan heading_page candidate_texts rest)"

definition has_paragraph_below :: "nat \<Rightarrow> line list \<Rightarrow> candidate list \<Rightarrow> bool" where
  "has_paragraph_below heading_idx all_lines heading_candidates =
     (if heading_idx \<ge> length all_lines then False
      else paragraph_scan (page (all_lines ! heading_idx))
             (set (map ltext heading_candidates))
             (take 15 (drop (heading_idx + 1) all_lines)))"

text \<open>\<^verbatim>\<open>text_to_index\<close> maps a text to the last index that holds it.\<close>

definition text_to_index :: "line list \<Rightarrow> string \<Rightarrow> nat option" where
  "text_to_index all_lines =
     foldl (\<lambda>m (i, l). m(ltext l \<mapsto> i)) Map.empty (enumerate 0 all_lines)"

definition filter_headings_with_content :: "candidate list \<Rightarrow> line list \<Rightarrow> candidate list" where
  "filter_headings_with_content candidates all_lines =
     filter (\<lambda>c. case text_to_index all_lines (ltext c) of
                   Some heading_idx \<Rightarrow> has_paragraph_below heading_idx all_lines candidates
                 | None \<Rightarrow> True)
       candidates"

subsection \<open>Level assigner\<close>

text \<open>
  The clustering (\<^verbatim>\<open>StandardScaler\<close> and \<^verbatim>\<open>AgglomerativeClustering\<close>) is a parameter:
  from the feature rows and the number of clusters it returns one label per row.
  Nothing is assumed of it; labels of the wrong number raise IndexError as in Python.
\<close>

type_synonym clustering = "real list list \<Rightarrow> nat \<Rightarrow> nat list"

definition features_of :: "candidate \<Rightarrow> real list" where
  "features_of c =
     [lsize c, (if is_bold c then 1 else 0), bx0 (bbox c), vertical_gap c,
      real (length (ltext c)), real_of_int (score c)]"

text \<open>\<^verbatim>\<open>f"H{min(i+1, 3)}"\<close>: one digit, since the number is at most 3.\<close>

definition level_name :: "nat \<Rightarrow> string" where
  "level_name i = [CHR ''H'', ''0123456789'' ! min (i + 1) 3]"

text \<open>\<^verbatim>\<open>cluster_sizes\<close>: the sizes of the candidates of each label, in first-seen order.\<close>

definition cluster_sizes :: "nat list \<Rightarrow> candidate list \<Rightarrow> (nat \<times> real list) list" where
  "cluster_sizes labels candidates =
     map (\<lambda>(label, cs). (label, map snd cs))
       (group_by fst (zip labels (map lsize candidates)))"

text \<open>
  \<^verbatim>\<open>sorted(keys, key=mean, reverse=True)\<close> is stable: descending by mean, equal means
  in their first order.
\<close>

definition sorted_clusters :: "(nat \<times> real list) list \<Rightarrow> nat list" where
  "sorted_clusters sizes = map fst (sort_key (\<lambda>(label, xs). - mean xs) sizes)"

definition level_map :: "nat list \<Rightarrow> (nat \<times> string) list" where
  "level_map clusters = map (\<lambda>(i, cluster). (cluster, level_name i)) (enumerate 0 clusters)"

definition assign_levels :: "clustering \<Rightarrow> candidate list \<Rightarrow> error + candidate list" where
  "assign_levels fit_predict candidates =
     (if length candidates \<ge> 2 then
        let n_clusters = min 3 (max 2 (length candidates div 2));
            labels = fit_predict (map features_of candidates) n_clusters
        in if length labels \<noteq> length candidates then Inl IndexError
           else
             let lm = level_map (sorted_clusters (cluster_sizes labels candidates))
             in collect (\<lambda>(label, c). case map_of lm label of
                                        None \<Rightarrow> Inl KeyError
                                      | Some lv \<Rightarrow> Inr (c\<lparr>level := Some lv\<rparr>))
                  (zip labels candidates)
      else (case candidates of
              [] \<Rightarrow> Inl IndexError
            | c # cs \<Rightarrow> Inr (c\<lparr>level := Some ''H1''\<rparr> # cs)))"

subsection \<open>Outline assembler\<close>

record entry =
  e_level :: string
  e_text :: string
  e_page :: nat

record result =
  title :: string
  outline :: "entry list"

definition entry_of :: "candidate \<Rightarrow> entry" where
  "entry_of c =
     \<lparr>e_level = (case level c of None \<Rightarrow> ''H1'' | Some lv \<Rightarrow> lv),
      e_text = capitalize_first_letter (ltext c),
      e_page = page c\<rparr>"

text \<open>
  The sort key of an entry: its page and the Y of the first candidate with the same
  text up to case; Python's \<^verbatim>\<open>next\<close> raises StopIteration when there is none.
\<close>

definition sort_key_of :: "candidate list \<Rightarrow> entry \<Rightarrow> error + (nat \<times> real)" where
  "sort_key_of candidates x =
     (case find (\<lambda>c. lower (normalize_text (ltext c)) = lower (normalize_text (e_text x)))
             candidates of
        None \<Rightarrow> Inl StopIteration
      | Some c \<Rightarrow> Inr (e_page x, by0 (bbox c)))"

definition sort_outline :: "candidate list \<Rightarrow> entry list \<Rightarrow> error + entry list" where
  "sort_outline candidates entries =
     (case collect (\<lambda>x. case sort_key_of candidates x of
                          Inl e \<Rightarrow> Inl e
                        | Inr k \<Rightarrow> Inr (k, x)) entries of
        Inl e \<Rightarrow> Inl e
      | Inr keyed \<Rightarrow> Inr (map snd (sort_key fst keyed)))"

text \<open>The deduplication loop with its \<^verbatim>\<open>seen\<close> set.\<close>

fun dedupe :: "string set \<Rightarrow> entry list \<Rightarrow> entry list" where
  "dedupe seen [] = []"
| "dedupe seen (item # rest) =
     (let normalized = strip (lower (e_text item))
      in if normalized \<notin> seen then item # dedupe (insert normalized seen) rest
         else dedupe seen rest)"

subsection \<open>The whole document\<close>

definition empty_result :: result where
  "empty_result = \<lparr>title = [], outline = []\<rparr>"

text \<open>The body of the \<^verbatim>\<open>try\<close> of \<^verbatim>\<open>extract_pdf_outline\<close>, after the page loop.\<close>

definition outline_of_lines :: "clustering \<Rightarrow> real \<Rightarrow> line list \<Rightarrow> error + result" where
  "outline_of_lines fit_predict page_height all_lines =
     (if all_lines = [] then Inr empty_result
      else
        let font_sizes = map lsize all_lines;
            first_page_elements = filter (\<lambda>l. page l = 0) all_lines;
            bold_count = length (filter is_bold all_lines)
        in (case extract_title first_page_elements
                   (if font_sizes \<noteq> [] then median font_sizes else 12) page_height of
              Inl e \<Rightarrow> Inl e
            | Inr title_str \<Rightarrow>
                let table_y_coords = detect_table_rows all_lines
                in if font_sizes = [] then Inr \<lparr>title = title_str, outline = []\<rparr>
                   else
                     let median_size = median font_sizes;
                         bold_frequency = real bold_count / real (length all_lines);
                         candidates0 = scan_candidates title_str table_y_coords median_size
                                         bold_frequency None all_lines;
                         candidates =
                           (if candidates0 \<noteq> [] then
                              filter_headings_with_content
                                (filter_horizontal_table_headers
                                   (filter_inconsistent_formatting candidates0))
                                all_lines
                            else candidates0)
                     in if candidates = [] then Inr \<lparr>title = title_str, outline = []\<rparr>
                        else
                          (case assign_levels fit_predict candidates of
                             Inl e \<Rightarrow> Inl e
                           | Inr leveled \<Rightarrow>
                               (case sort_outline leveled (map entry_of leveled) of
                                  Inl e \<Rightarrow> Inl e
                                | Inr sorted_outline \<Rightarrow>
                                    Inr \<lparr>title = title_str,
                                         outline = dedupe {} sorted_outline\<rparr>))))"

text \<open>
  \<^verbatim>\<open>extract_pdf_outline\<close>: a document that cannot be opened is \<open>None\<close>; every
  exception ends in the empty result.
\<close>

definition extract_pdf_outline :: "clustering \<Rightarrow> pdf_page list option \<Rightarrow> result" where
  "extract_pdf_outline fit_predict doc =
     (case doc of
        None \<Rightarrow> empty_result
      | Some pages \<Rightarrow>
          (case outline_of_lines fit_predict (first_page_height pages) (extract_lines pages) of
             Inl e \<Rightarrow> empty_result
           | Inr r \<Rightarrow> r))"

subsection \<open>Auxiliary notions for the proofs\<close>


text \<open>
  A horizontal neighbour of a candidate: a candidate on the same page whose Y is within
  10 of its Y and whose left edge is at least 50 past its right edge.
\<close>

definition horizontal_neighbor :: "candidate \<Rightarrow> candidate \<Rightarrow> bool" where
  "horizontal_neighbor current other \<longleftrightarrow>
     page other = page current \<and>
     \<bar>by0 (bbox other) - by0 (bbox current)\<bar> \<le> 10 \<and>
     bx0 (bbox other) - bx1 (bbox current) \<ge> 50"

subsection \<open>An example document\<close>

text \<open>
  One page: a 24pt bold line ``Project Charter'', a sentence, a 14pt bold line
  ``1. Introduction'' and another sentence.
\<close>

definition example_document :: "pdf_page list" where
  "example_document =
    [\<lparr>pg_height = 792,
      pg_blocks = Some [Some
        [\<lparr>rl_spans = Some [\<lparr>span_text = Some ''Project Charter'', span_size = Some 24,
                             span_flags = Some 16\<rparr>],
          rl_bbox = Some (200, 50, 412, 80)\<rparr>,
         \<lparr>rl_spans = Some [\<lparr>span_text = Some ''we plan the work.'', span_size = Some 10,
                             span_flags = Some 0\<rparr>],
          rl_bbox = Some (72, 100, 300, 112)\<rparr>,
         \<lparr>rl_spans = Some [\<lparr>span_text = Some ''1. Introduction'', span_size = Some 14,
                             span_flags = Some 16\<rparr>],
          rl_bbox = Some (72, 150, 200, 166)\<rparr>,
         \<lparr>rl_spans = Some [\<lparr>span_text = Some ''it sets the scope.'', span_size = Some 10,
                             span_flags = Some 0\<rparr>],
          rl_bbox = Some (72, 180, 300, 192)\<rparr>]]\<rparr>]"


subsection \<open>The title candidates\<close>

text \<open>
  The list \<^verbatim>\<open>largest_candidates\<close> of \<^verbatim>\<open>extract_title\<close>: the valid title lines of
  the top 60\% of the first page whose size is within 1.0 of the largest.
\<close>

definition title_candidates_of :: "line list \<Rightarrow> real \<Rightarrow> line list" where
  "title_candidates_of first_page_elements page_height =
     filter (\<lambda>element.
               let text = normalize_text (ltext element)
               in is_valid_title text \<and> \<not> (startswith text ''('' \<and> endswith text '')''))
       (filter (\<lambda>elem. by0 (bbox elem) \<le> page_height * 0.6) first_page_elements)"

definition largest_candidates_of :: "line list \<Rightarrow> real \<Rightarrow> line list" where
  "largest_candidates_of first_page_elements page_height =
     filter (\<lambda>elem. lsize elem
                      \<ge> list_max (map lsize (title_candidates_of first_page_elements page_height))
                          - 1.0)
       (title_candidates_of first_page_elements page_height)"

section \<open>Properties\<close>

subsection \<open>The matcher decides the language\<close>

lemma kleene_cons_iff:
  "c # w \<in> kleene A \<longleftrightarrow> (\<exists>u v. w = u @ v \<and> c # u \<in> A \<and> v \<in> kleene A)"
proof
  assume "c # w \<in> kleene A"
  then show "\<exists>u v. w = u @ v \<and> c # u \<in> A \<and> v \<in> kleene A"
  proof (induction "c # w" arbitrary: w rule: kleene.induct)
    case (kleene_app u v)
    then show ?case by (cases u) auto
  qed
next
  assume "\<exists>u v. w = u @ v \<and> c # u \<in> A \<and> v \<in> kleene A"
  then obtain u v where "w = u @ v" "c # u \<in> A" "v \<in> kleene A" by blast
  then have "(c # u) @ v \<in> kleene A" by (intro kleene.kleene_app)
  with \<open>w = u @ v\<close> show "c # w \<in> kleene A" by simp
qed

lemma nullable_lang: "nullable r \<longleftrightarrow> [] \<in> lang r"
  by (induction r) (auto intro: kleene.kleene_nil)

lemma lang_deriv: "w \<in> lang (deriv c r) \<longleftrightarrow> c # w \<in> lang r"
proof (induction r arbitrary: w)
  case (Seq r s)
  show ?case
  proof (cases "nullable r")
    case True
    then have "[] \<in> lang r" by (simp add: nullable_lang)
    with Seq True show ?thesis
      by (auto simp: Cons_eq_append_conv)
  next
    case False
    then have "[] \<notin> lang r" by (simp add: nullable_lang)
    with Seq False show ?thesis
      by (auto simp: Cons_eq_append_conv)
  qed
next
  case (Rep r)
  then show ?case by (auto simp: kleene_cons_iff)
qed auto

lemma matches_lang: "matches r s \<longleftrightarrow> s \<in> lang r"
  by (induction s arbitrary: r) (simp_all add: nullable_lang lang_deriv)

subsection \<open>Serial numbers\<close>

lemma collapse_ws_no_space: "\<forall>c \<in> set s. \<not> is_space c \<Longrightarrow> collapse_ws s = s"
  by (induction s rule: collapse_ws.induct) auto

lemma dropWhile_none: "\<forall>c \<in> set s. \<not> P c \<Longrightarrow> dropWhile P s = s"
  by (cases s) auto

lemma strip_no_space: "\<forall>c \<in> set s. \<not> is_space c \<Longrightarrow> strip s = s"
  by (simp add: strip_def dropWhile_none)

lemma normalize_text_no_space: "\<forall>c \<in> set s. \<not> is_space c \<Longrightarrow> normalize_text s = s"
  by (simp add: normalize_text_def collapse_ws_no_space strip_no_space)

lemma kleene_Ch: "\<forall>c \<in> set u. p c \<Longrightarrow> u \<in> kleene (lang (Ch p))"
proof (induction u)
  case Nil
  show ?case by (rule kleene.kleene_nil)
next
  case (Cons c u)
  then have "[c] \<in> lang (Ch p)" and "u \<in> kleene (lang (Ch p))" by auto
  then have "[c] @ u \<in> kleene (lang (Ch p))" by (rule kleene.kleene_app)
  then show ?case by simp
qed

lemma many1_Ch: "u \<noteq> [] \<Longrightarrow> \<forall>c \<in> set u. p c \<Longrightarrow> u \<in> lang (many1 (Ch p))"
proof (cases u)
  case (Cons c v)
  assume "\<forall>c \<in> set u. p c"
  with Cons have "[c] \<in> lang (Ch p)" "v \<in> kleene (lang (Ch p))"
    using kleene_Ch [of v p] by simp_all
  then have "[c] @ v \<in> lang (many1 (Ch p))" unfolding many1_def lang.simps by blast
  with Cons show ?thesis by simp
qed simp

lemma serial_fold_mem:
  "y \<in> foldl (\<lambda>S l. if is_serial_number (ltext l) then insert (by0 (bbox l)) S else S) S0 ls
   \<longleftrightarrow> y \<in> S0 \<or> (\<exists>l \<in> set ls. is_serial_number (ltext l) \<and> by0 (bbox l) = y)"
  by (induction ls arbitrary: S0) auto

lemma bucket_fold_mem:
  "y \<in> S0 \<Longrightarrow> y \<in> foldl (\<lambda>S (x, x_lines). S \<union> set (bucket_rows x_lines)) S0 bs"
  by (induction bs arbitrary: S0) (auto split: prod.splits)

lemma bucket_fold_mono:
  "S0 \<subseteq> foldl (\<lambda>S (x, x_lines). S \<union> set (bucket_rows x_lines)) S0 bs"
  using bucket_fold_mem by blast

lemma page_fold_mono:
  "S0 \<subseteq> foldl (\<lambda>S (p, lines).
                  foldl (\<lambda>S (x, x_lines). S \<union> set (bucket_rows x_lines))
                    S (group_by x_bucket lines)) S0 ps"
proof (induction ps arbitrary: S0)
  case (Cons a ps)
  obtain p lines where a: "a = (p, lines)" by (cases a)
  have "S0 \<subseteq> foldl (\<lambda>S (x, x_lines). S \<union> set (bucket_rows x_lines)) S0 (group_by x_bucket lines)"
    by (rule bucket_fold_mono)
  also have "\<dots> \<subseteq> foldl (\<lambda>S (p, lines).
                  foldl (\<lambda>S (x, x_lines). S \<union> set (bucket_rows x_lines))
                    S (group_by x_bucket lines)) S0 (a # ps)"
    using Cons.IH by (simp add: a)
  finally show ?case .
qed simp

lemma serial_line_in_table_rows:
  "l \<in> set all_lines \<Longrightarrow> is_serial_number (ltext l) \<Longrightarrow> by0 (bbox l) \<in> detect_table_rows all_lines"
proof -
  assume "l \<in> set all_lines" "is_serial_number (ltext l)"
  then have "by0 (bbox l) \<in> foldl (\<lambda>S l. if is_serial_number (ltext l) then insert (by0 (bbox l)) S else S) {} all_lines"
    unfolding serial_fold_mem by blast
  then show ?thesis
    unfolding detect_table_rows_def Let_def by (rule subsetD [OF page_fold_mono])
qed

lemma char_lower_roman: "c \<in> set ''ivxlcdmIVXLCDM'' \<Longrightarrow> char_lower c \<in> set ''ivxlcdm''"
  apply (simp, elim disjE)
  by (simp_all add: char_lower_def)

lemma char_roman_no_space: "c \<in> set ''ivxlcdmIVXLCDM'' \<Longrightarrow> \<not> is_space c"
  apply (simp, elim disjE)
  by (simp_all add: is_space_def)

lemma lower_roman: "set w \<subseteq> set ''ivxlcdmIVXLCDM'' \<Longrightarrow> \<forall>c \<in> set (lower w). c \<in> set ''ivxlcdm''"
  unfolding lower_def set_map using char_lower_roman by blast

lemma roman_no_space: "set w \<subseteq> set ''ivxlcdmIVXLCDM'' \<Longrightarrow> \<forall>c \<in> set w. \<not> is_space c"
  using char_roman_no_space by blast

lemma lang_SeqI: "u \<in> lang r \<Longrightarrow> v \<in> lang s \<Longrightarrow> u @ v \<in> lang (Seq r s)"
  by auto

lemma re_match_dollarI: "s \<in> lang r \<Longrightarrow> re_match_dollar r s"
  using lang_SeqI [of s r "[]" "opt (chr (CHR 0x0A))"]
  by (simp add: re_match_dollar_def matches_lang opt_def)

lemma roman_pattern:
  assumes "w \<noteq> []" "set w \<subseteq> set ''ivxlcdmIVXLCDM''" "d = [] \<or> d = ''.''"
  shows "re_match_dollar (seqs [many1 (one_of ''ivxlcdm''), opt (chr CHR ''.'')]) (lower w @ d)"
proof -
  have 1: "lower w \<in> lang (many1 (one_of ''ivxlcdm''))"
    unfolding one_of_def using assms(1) lower_roman [OF assms(2)]
    by (intro many1_Ch) (simp_all add: lower_def)
  have "d \<in> lang (opt (chr CHR ''.''))"
    using assms(3) by (auto simp: opt_def chr_def)
  then have 2: "d \<in> lang (Seq (opt (chr CHR ''.'')) Eps)"
    using lang_SeqI [of d "opt (chr CHR ''.'')" "[]" Eps] by simp
  have "lower w @ d \<in> lang (Seq (many1 (one_of ''ivxlcdm'')) (Seq (opt (chr CHR ''.'')) Eps))"
    using 1 2 by (rule lang_SeqI)
  then show ?thesis by (intro re_match_dollarI) simp
qed

lemma dot_no_space: "d = [] \<or> d = ''.'' \<Longrightarrow> \<forall>c \<in> set d. \<not> is_space c"
  by (auto simp: is_space_def)

lemma lower_dot: "d = [] \<or> d = ''.'' \<Longrightarrow> lower d = d"
  by (auto simp: lower_def char_lower_def)

lemma lower_append: "lower (u @ v) = lower u @ lower v"
  by (simp add: lower_def)

lemma roman_in_serial_patterns:
  "seqs [many1 (one_of ''ivxlcdm''), opt (chr CHR ''.'')] \<in> set serial_patterns"
  unfolding serial_patterns_def by (simp del: seqs.simps)

lemma is_serial_number_roman:
  assumes "w \<noteq> []" "set w \<subseteq> set ''ivxlcdmIVXLCDM''" "d = [] \<or> d = ''.''"
  shows "is_serial_number (w @ d)"
proof -
  have "\<forall>c \<in> set (w @ d). \<not> is_space c"
    using roman_no_space [OF assms(2)] dot_no_space [OF assms(3)]
    unfolding set_append by blast
  then have "normalize_text (w @ d) = w @ d"
    by (rule normalize_text_no_space)
  moreover have "lower (w @ d) = lower w @ d"
    by (simp add: lower_append lower_dot [OF assms(3)])
  ultimately have "re_match_dollar (seqs [many1 (one_of ''ivxlcdm''), opt (chr CHR ''.'')])
      (lower (normalize_text (w @ d)))"
    using roman_pattern [OF assms] by simp
  then show ?thesis
    unfolding is_serial_number_def Let_def list_ex_iff
    using roman_in_serial_patterns by blast
qed

text \<open>
  Claim C10. \<open>is_serial_number\<close> is true of every non-empty word over the letters
  i, v, x, l, c, d, m in either case, with or without a final period, whether or not
  the word is a well-formed Roman numeral; a line whose text is such a word puts its
  Y-coordinate into the table-row set.
\<close>

theorem serial_number_roman_letters:
  assumes "w \<noteq> []" and "set w \<subseteq> set ''ivxlcdmIVXLCDM''"
  shows "is_serial_number w \<and> is_serial_number (w @ ''.'') \<and>
         (l \<in> set all_lines \<and> (ltext l = w \<or> ltext l = w @ ''.'')
            \<longrightarrow> by0 (bbox l) \<in> detect_table_rows all_lines)"
proof -
  have a: "is_serial_number w" using is_serial_number_roman [OF assms, of "[]"] by simp
  have b: "is_serial_number (w @ ''.'')" using is_serial_number_roman [OF assms, of "''.''"] by simp
  from a b show ?thesis by (auto intro: serial_line_in_table_rows)
qed

theorem serial_number_roman_letters_witness:
  "is_serial_number ''mix'' \<and> is_serial_number ''did'' \<and> is_serial_number ''ill'' \<and>
   is_serial_number ''MIX.'' \<and>
   100 \<in> detect_table_rows [\<lparr>ltext = ''mix'', lsize = 12, is_bold = False,
                            bbox = (72, 100, 90, 112), page = 0, spans = []\<rparr>]"
proof -
  have h: "''mix'' \<noteq> []" "''did'' \<noteq> []" "''ill'' \<noteq> []" "''MIX'' \<noteq> []"
    "set ''mix'' \<subseteq> set ''ivxlcdmIVXLCDM''" "set ''did'' \<subseteq> set ''ivxlcdmIVXLCDM''"
    "set ''ill'' \<subseteq> set ''ivxlcdmIVXLCDM''" "set ''MIX'' \<subseteq> set ''ivxlcdmIVXLCDM''"
    by simp_all
  show ?thesis
    using serial_number_roman_letters [OF h(1) h(5),
        of "\<lparr>ltext = ''mix'', lsize = 12, is_bold = False,
             bbox = (72, 100, 90, 112), page = 0, spans = []\<rparr>"
           "[\<lparr>ltext = ''mix'', lsize = 12, is_bold = False,
             bbox = (72, 100, 90, 112), page = 0, spans = []\<rparr>]"]
      serial_number_roman_letters [OF h(2) h(6)]
      serial_number_roman_letters [OF h(3) h(7)]
      serial_number_roman_letters [OF h(4) h(8)]
    by (simp add: by0_def)
qed

subsection \<open>Grouping\<close>

lemma group_insert_keys:
  "map fst (group_insert k v d) = (if k \<in> fst ` set d then map fst d else map fst d @ [k])"
  by (induction d) (auto split: if_splits)

lemma group_by_distinct_aux:
  "distinct (map fst d) \<Longrightarrow> distinct (map fst (foldl (\<lambda>d x. group_insert (f x) x d) d xs))"
proof (induction xs arbitrary: d)
  case (Cons x xs)
  have "distinct (map fst (group_insert (f x) x d))"
    using Cons.prems by (simp add: group_insert_keys)
  then show ?case using Cons.IH by simp
qed simp

lemma group_by_distinct: "distinct (map fst (group_by f xs))"
  unfolding group_by_def by (rule group_by_distinct_aux) simp

lemma group_insert_map_of:
  "map_of (group_insert k v d) =
   (map_of d)(k \<mapsto> (case map_of d k of None \<Rightarrow> [v] | Some vs \<Rightarrow> vs @ [v]))"
  by (induction d) (auto simp: fun_eq_iff)

lemma group_by_snoc: "group_by f (xs @ [x]) = group_insert (f x) x (group_by f xs)"
  by (simp add: group_by_def)

lemma map_of_group_by:
  "map_of (group_by f xs) k =
   (if k \<in> f ` set xs then Some (filter (\<lambda>y. f y = k) xs) else None)"
proof (induction xs arbitrary: k rule: rev_induct)
  case Nil
  then show ?case by (simp add: group_by_def)
next
  case (snoc x xs)
  show ?case
    unfolding group_by_snoc group_insert_map_of
    by (cases "f x = k") (auto simp: snoc filter_empty_conv image_iff)
qed

lemma group_by_mem:
  "(k, vs) \<in> set (group_by f xs) \<longleftrightarrow> k \<in> f ` set xs \<and> vs = filter (\<lambda>y. f y = k) xs"
proof -
  have "(k, vs) \<in> set (group_by f xs) \<longleftrightarrow> map_of (group_by f xs) k = Some vs"
    using group_by_distinct [of f xs] by simp
  then show ?thesis by (auto simp: map_of_group_by)
qed

subsection \<open>Table detection\<close>

lemma numbered_lines_eq:
  "numbered_lines ls =
     (List.map_filter line_number ls,
      map (\<lambda>l. by0 (bbox l)) (filter (\<lambda>l. line_number l \<noteq> None) ls))"
  by (induction ls) (auto simp: line_number_def List.map_filter_simps split: sum.splits)

lemma numbered_lines_length:
  "length (fst (numbered_lines ls)) = length (snd (numbered_lines ls))"
  by (induction ls) (auto split: sum.splits prod.splits)

lemma find_run_Some:
  "find_run ns i0 = Some i \<Longrightarrow>
     i0 \<le> i \<and> (i - i0) + 2 < length ns \<and> ns ! (i - i0 + 1) = ns ! (i - i0) + 1 \<and>
     ns ! (i - i0 + 2) = ns ! (i - i0) + 2 \<and>
     (\<forall>j < i - i0. \<not> (ns ! (j + 1) = ns ! j + 1 \<and> ns ! (j + 2) = ns ! j + 2))"
proof (induction ns i0 rule: find_run.induct)
  case (1 a b c rest i0)
  show ?case
  proof (cases "b = a + 1 \<and> c = a + 2")
    case True
    with 1 show ?thesis by simp
  next
    case False
    with 1 have fr: "find_run (b # c # rest) (Suc i0) = Some i" by simp
    from 1(1) [OF False fr] have ih:
      "Suc i0 \<le> i" "(i - Suc i0) + 2 < length (b # c # rest)"
      "(b # c # rest) ! (i - Suc i0 + 1) = (b # c # rest) ! (i - Suc i0) + 1"
      "(b # c # rest) ! (i - Suc i0 + 2) = (b # c # rest) ! (i - Suc i0) + 2"
      "\<forall>j < i - Suc i0. \<not> ((b # c # rest) ! (j + 1) = (b # c # rest) ! j + 1 \<and>
          (b # c # rest) ! (j + 2) = (b # c # rest) ! j + 2)"
      by blast+
    from ih(1) obtain k where k: "i - i0 = Suc k" "i - Suc i0 = k"
      by (metis Suc_diff_Suc Suc_le_lessD diff_Suc_Suc)
    have "\<forall>j < Suc k. \<not> ((a # b # c # rest) ! (j + 1) = (a # b # c # rest) ! j + 1 \<and>
          (a # b # c # rest) ! (j + 2) = (a # b # c # rest) ! j + 2)"
    proof (intro allI impI)
      fix j assume "j < Suc k"
      show "\<not> ((a # b # c # rest) ! (j + 1) = (a # b # c # rest) ! j + 1 \<and>
          (a # b # c # rest) ! (j + 2) = (a # b # c # rest) ! j + 2)"
      proof (cases j)
        case 0
        with False show ?thesis by simp
      next
        case (Suc j')
        with \<open>j < Suc k\<close> ih(5) k show ?thesis by simp
      qed
    qed
    with ih k show ?thesis by simp
  qed
qed simp_all

lemma find_run_None:
  "find_run ns i0 = None \<Longrightarrow> \<not> has_run ns"
proof (induction ns i0 rule: find_run.induct)
  case (1 a b c rest i0)
  then have nf: "\<not> (b = a + 1 \<and> c = a + 2)" and "find_run (b # c # rest) (Suc i0) = None"
    by (auto split: if_splits)
  with 1 have ih: "\<not> has_run (b # c # rest)" by blast
  show ?case
  proof
    assume "has_run (a # b # c # rest)"
    then obtain i where i: "i + 2 < length (a # b # c # rest)"
      "(a # b # c # rest) ! (i + 1) = (a # b # c # rest) ! i + 1"
      "(a # b # c # rest) ! (i + 2) = (a # b # c # rest) ! i + 2"
      unfolding has_run_def by blast
    show False
    proof (cases i)
      case 0
      with i nf show False by simp
    next
      case (Suc i')
      with i have "has_run (b # c # rest)" unfolding has_run_def by (intro exI [of _ i']) simp
      with ih show False by blast
    qed
  qed
qed (simp_all add: has_run_def)


lemma length_map_filter_line_number:
  "length (List.map_filter line_number ls) = length (filter (\<lambda>l. line_number l \<noteq> None) ls)"
  by (induction ls) (auto simp: List.map_filter_simps split: option.splits)

lemma upt_three: "[i ..< i + 3] = [i, i + 1, i + 2]"
  by (simp add: upt_rec numeral_3_eq_3)

lemma has_run_length: "has_run ns \<Longrightarrow> 3 \<le> length ns"
  by (auto simp: has_run_def)

lemma bucket_rows_cases:
  assumes "ns = List.map_filter line_number (sort_key (\<lambda>l. by0 (bbox l)) x_lines)"
    and "ys = map (\<lambda>l. by0 (bbox l))
                (filter (\<lambda>l. line_number l \<noteq> None) (sort_key (\<lambda>l. by0 (bbox l)) x_lines))"
  shows "(bucket_rows x_lines = [] \<and> \<not> (3 \<le> length x_lines \<and> has_run ns)) \<or>
         (3 \<le> length x_lines \<and> has_run ns \<and>
          (\<exists>i. i + 2 < length ns \<and> ns ! (i + 1) = ns ! i + 1 \<and> ns ! (i + 2) = ns ! i + 2 \<and>
             (\<forall>j < i. \<not> (ns ! (j + 1) = ns ! j + 1 \<and> ns ! (j + 2) = ns ! j + 2)) \<and>
             bucket_rows x_lines = [ys ! i, ys ! (i + 1), ys ! (i + 2)]))"
proof -
  have len: "length ys = length ns"
    unfolding assms by (simp add: length_map_filter_line_number)
  have nl: "numbered_lines (sort_key (\<lambda>l. by0 (bbox l)) x_lines) = (ns, ys)"
    unfolding assms by (rule numbered_lines_eq)
  show ?thesis
  proof (cases "length x_lines < 3")
    case True
    then show ?thesis by (simp add: bucket_rows_def)
  next
    case long: False
    show ?thesis
    proof (cases "find_run ns 0")
      case None
      then have "\<not> has_run ns" by (rule find_run_None)
      moreover have "bucket_rows x_lines = []"
        using long None by (simp add: bucket_rows_def nl)
      ultimately show ?thesis by simp
    next
      case (Some i)
      from find_run_Some [OF Some] have run:
        "i + 2 < length ns" "ns ! (i + 1) = ns ! i + 1" "ns ! (i + 2) = ns ! i + 2"
        "\<forall>j < i. \<not> (ns ! (j + 1) = ns ! j + 1 \<and> ns ! (j + 2) = ns ! j + 2)"
        by simp_all
      then have hr: "has_run ns" unfolding has_run_def by blast
      have "min (i + 3) (length ys) = i + 3" using run(1) len by simp
      then have "bucket_rows x_lines = [ys ! i, ys ! (i + 1), ys ! (i + 2)]"
        using long Some run(1) by (simp add: bucket_rows_def nl upt_three)
      with long hr run show ?thesis by auto
    qed
  qed
qed

lemma bucket_fold_eq:
  "foldl (\<lambda>S (x, x_lines). S \<union> set (bucket_rows x_lines)) S0 bs
   = S0 \<union> (\<Union>b \<in> set bs. set (bucket_rows (snd b)))"
  by (induction bs arbitrary: S0) (auto split: prod.splits)

lemma union_fold_eq:
  "foldl (\<lambda>S (p, lines). S \<union> g lines) S0 ps = S0 \<union> (\<Union>pl \<in> set ps. g (snd pl))"
  by (induction ps arbitrary: S0) (auto split: prod.splits)

lemma page_fold_eq:
  "foldl (\<lambda>S (p, lines).
            foldl (\<lambda>S (x, x_lines). S \<union> set (bucket_rows x_lines)) S
              (group_by x_bucket lines)) S0 ps
   = S0 \<union> (\<Union>pl \<in> set ps. \<Union>b \<in> set (group_by x_bucket (snd pl)). set (bucket_rows (snd b)))"
  unfolding bucket_fold_eq by (rule union_fold_eq)

lemma serial_fold_eq:
  "foldl (\<lambda>S l. if is_serial_number (ltext l) then insert (by0 (bbox l)) S else S) {} ls
   = {by0 (bbox l) | l. l \<in> set ls \<and> is_serial_number (ltext l)}"
  using serial_fold_mem [of _ "{}" ls] by auto

lemma bucket_rows_Nil: "bucket_rows [] = []"
  by (simp add: bucket_rows_def)

lemma buckets_union:
  "(\<Union>pl \<in> set (group_by page ls). \<Union>b \<in> set (group_by x_bucket (snd pl)).
      set (bucket_rows (snd b)))
   = (\<Union>p. \<Union>x. set (bucket_rows
        (filter (\<lambda>l. x_bucket l = x) (filter (\<lambda>l. page l = p) ls))))"
  (is "?L = ?R")
proof (intro set_eqI iffI)
  fix y assume "y \<in> ?L"
  then obtain p lines x xl where
    "(p, lines) \<in> set (group_by page ls)" "(x, xl) \<in> set (group_by x_bucket lines)"
    "y \<in> set (bucket_rows xl)" by auto
  then have "y \<in> set (bucket_rows
        (filter (\<lambda>l. x_bucket l = x) (filter (\<lambda>l. page l = p) ls)))"
    by (simp add: group_by_mem)
  then show "y \<in> ?R" by blast
next
  fix y assume "y \<in> ?R"
  then obtain p x where y: "y \<in> set (bucket_rows
        (filter (\<lambda>l. x_bucket l = x) (filter (\<lambda>l. page l = p) ls)))" by blast
  let ?lines = "filter (\<lambda>l. page l = p) ls"
  let ?xl = "filter (\<lambda>l. x_bucket l = x) ?lines"
  from y have "?xl \<noteq> []" using bucket_rows_Nil by force
  then have x: "x \<in> x_bucket ` set ?lines" by (auto simp: filter_empty_conv)
  then have p: "p \<in> page ` set ls" by auto
  from p have "(p, ?lines) \<in> set (group_by page ls)" by (simp add: group_by_mem)
  moreover from x have "(x, ?xl) \<in> set (group_by x_bucket ?lines)" by (simp add: group_by_mem)
  ultimately show "y \<in> ?L" using y by force
qed

lemma detect_table_rows_eq:
  "detect_table_rows all_lines =
     {by0 (bbox l) | l. l \<in> set all_lines \<and> is_serial_number (ltext l)} \<union>
     (\<Union>p. \<Union>x. set (bucket_rows
        (filter (\<lambda>l. x_bucket l = x) (filter (\<lambda>l. page l = p) all_lines))))"
  unfolding detect_table_rows_def Let_def page_fold_eq serial_fold_eq buckets_union ..


lemma detect_table_rows_groups:
  "detect_table_rows all_lines =
     {by0 (bbox l) | l. l \<in> set all_lines \<and> is_serial_number (ltext l)} \<union>
     (\<Union>pl \<in> set (group_by page all_lines). \<Union>b \<in> set (group_by x_bucket (snd pl)).
        set (bucket_rows (snd b)))"
  unfolding detect_table_rows_def Let_def page_fold_eq serial_fold_eq ..

text \<open>
  Claim C6, as amended. The table-row set returned by \<open>detect_table_rows\<close> consists of
  the Y-coordinates of the serial-number lines and of what the bucket scans add. The
  buckets are, for every page, the lines of the page with the same \<open>x_bucket\<close> (x0 / 10
  rounded to the nearest integer, halves to the even one, times 10), in document order.
  A bucket adds Y-coordinates to the set exactly when it has at least three lines and
  the numbers parsed from its numeric lines (those whose stripped text is an integer
  with an optional final period), taken in Y order and skipping every other line,
  contain three adjacent entries \<open>n\<close>, \<open>n + 1\<close>, \<open>n + 2\<close>; it then adds the three
  Y-coordinates of the first such run.
\<close>

theorem table_rows_numeric_run:
  "detect_table_rows all_lines =
     {by0 (bbox l) | l. l \<in> set all_lines \<and> is_serial_number (ltext l)} \<union>
     (\<Union>p. \<Union>x. set (bucket_rows
        (filter (\<lambda>l. x_bucket l = x) (filter (\<lambda>l. page l = p) all_lines)))) \<and>
   (\<forall>p lines x x_lines.
      (p, lines) \<in> set (group_by page all_lines) \<and>
      (x, x_lines) \<in> set (group_by x_bucket lines) \<longrightarrow>
      lines = filter (\<lambda>l. page l = p) all_lines \<and>
      x_lines = filter (\<lambda>l. x_bucket l = x) lines \<and>
      set (bucket_rows x_lines) \<subseteq> detect_table_rows all_lines \<and>
      (let sorted = sort_key (\<lambda>l. by0 (bbox l)) x_lines;
           ns = List.map_filter line_number sorted;
           ys = map (\<lambda>l. by0 (bbox l)) (filter (\<lambda>l. line_number l \<noteq> None) sorted)
       in (bucket_rows x_lines \<noteq> [] \<longleftrightarrow> 3 \<le> length x_lines \<and> has_run ns) \<and>
          (bucket_rows x_lines \<noteq> [] \<longrightarrow>
             (\<exists>i. i + 2 < length ns \<and> ns ! (i + 1) = ns ! i + 1 \<and>
                ns ! (i + 2) = ns ! i + 2 \<and>
                (\<forall>j < i. \<not> (ns ! (j + 1) = ns ! j + 1 \<and> ns ! (j + 2) = ns ! j + 2)) \<and>
                bucket_rows x_lines = [ys ! i, ys ! (i + 1), ys ! (i + 2)]))))"
proof (intro conjI allI impI)
  show "detect_table_rows all_lines =
     {by0 (bbox l) | l. l \<in> set all_lines \<and> is_serial_number (ltext l)} \<union>
     (\<Union>p. \<Union>x. set (bucket_rows
        (filter (\<lambda>l. x_bucket l = x) (filter (\<lambda>l. page l = p) all_lines))))"
    by (rule detect_table_rows_eq)
next
  fix p lines x x_lines
  assume g: "(p, lines) \<in> set (group_by page all_lines) \<and>
      (x, x_lines) \<in> set (group_by x_bucket lines)"
  then show "lines = filter (\<lambda>l. page l = p) all_lines"
    and "x_lines = filter (\<lambda>l. x_bucket l = x) lines"
    by (simp_all add: group_by_mem)
  from g have "set (bucket_rows x_lines)
      \<subseteq> (\<Union>pl \<in> set (group_by page all_lines). \<Union>b \<in> set (group_by x_bucket (snd pl)).
        set (bucket_rows (snd b)))"
    by force
  then show "set (bucket_rows x_lines) \<subseteq> detect_table_rows all_lines"
    unfolding detect_table_rows_groups by blast
  show "let sorted = sort_key (\<lambda>l. by0 (bbox l)) x_lines;
           ns = List.map_filter line_number sorted;
           ys = map (\<lambda>l. by0 (bbox l)) (filter (\<lambda>l. line_number l \<noteq> None) sorted)
       in (bucket_rows x_lines \<noteq> [] \<longleftrightarrow> 3 \<le> length x_lines \<and> has_run ns) \<and>
          (bucket_rows x_lines \<noteq> [] \<longrightarrow>
             (\<exists>i. i + 2 < length ns \<and> ns ! (i + 1) = ns ! i + 1 \<and>
                ns ! (i + 2) = ns ! i + 2 \<and>
                (\<forall>j < i. \<not> (ns ! (j + 1) = ns ! j + 1 \<and> ns ! (j + 2) = ns ! j + 2)) \<and>
                bucket_rows x_lines = [ys ! i, ys ! (i + 1), ys ! (i + 2)]))"
    unfolding Let_def using bucket_rows_cases [OF refl refl, of x_lines] by auto
qed

theorem table_rows_numeric_run_witness:
  "(0, [\<lparr>ltext = ''1.'', lsize = 10, is_bold = False, bbox = (72, 100, 80, 110), page = 0,
        spans = []\<rparr>,
      \<lparr>ltext = ''Total'', lsize = 10, is_bold = False, bbox = (72, 120, 95, 130), page = 0,
        spans = []\<rparr>,
      \<lparr>ltext = ''2.'', lsize = 10, is_bold = False, bbox = (72, 140, 80, 150), page = 0,
        spans = []\<rparr>,
      \<lparr>ltext = ''3.'', lsize = 10, is_bold = False, bbox = (72, 160, 80, 170), page = 0,
        spans = []\<rparr>]) \<in> set (group_by page
     [\<lparr>ltext = ''1.'', lsize = 10, is_bold = False, bbox = (72, 100, 80, 110), page = 0,
        spans = []\<rparr>,
      \<lparr>ltext = ''Total'', lsize = 10, is_bold = False, bbox = (72, 120, 95, 130), page = 0,
        spans = []\<rparr>,
      \<lparr>ltext = ''2.'', lsize = 10, is_bold = False, bbox = (72, 140, 80, 150), page = 0,
        spans = []\<rparr>,
      \<lparr>ltext = ''3.'', lsize = 10, is_bold = False, bbox = (72, 160, 80, 170), page = 0,
        spans = []\<rparr>]) \<and>
   (70, [\<lparr>ltext = ''1.'', lsize = 10, is_bold = False, bbox = (72, 100, 80, 110), page = 0,
        spans = []\<rparr>,
      \<lparr>ltext = ''Total'', lsize = 10, is_bold = False, bbox = (72, 120, 95, 130), page = 0,
        spans = []\<rparr>,
      \<lparr>ltext = ''2.'', lsize = 10, is_bold = False, bbox = (72, 140, 80, 150), page = 0,
        spans = []\<rparr>,
      \<lparr>ltext = ''3.'', lsize = 10, is_bold = False, bbox = (72, 160, 80, 170), page = 0,
        spans = []\<rparr>]) \<in> set (group_by x_bucket
     [\<lparr>ltext = ''1.'', lsize = 10, is_bold = False, bbox = (72, 100, 80, 110), page = 0,
        spans = []\<rparr>,
      \<lparr>ltext = ''Total'', lsize = 10, is_bold = False, bbox = (72, 120, 95, 130), page = 0,
        spans = []\<rparr>,
      \<lparr>ltext = ''2.'', lsize = 10, is_bold = False, bbox = (72, 140, 80, 150), page = 0,
        spans = []\<rparr>,
      \<lparr>ltext = ''3.'', lsize = 10, is_bold = False, bbox = (72, 160, 80, 170), page = 0,
        spans = []\<rparr>]) \<and>
   bucket_rows
     [\<lparr>ltext = ''1.'', lsize = 10, is_bold = False, bbox = (72, 100, 80, 110), page = 0,
        spans = []\<rparr>,
      \<lparr>ltext = ''Total'', lsize = 10, is_bold = False, bbox = (72, 120, 95, 130), page = 0,
        spans = []\<rparr>,
      \<lparr>ltext = ''2.'', lsize = 10, is_bold = False, bbox = (72, 140, 80, 150), page = 0,
        spans = []\<rparr>,
      \<lparr>ltext = ''3.'', lsize = 10, is_bold = False, bbox = (72, 160, 80, 170), page = 0,
        spans = []\<rparr>] = [100, 140, 160] \<and>
   set [100, 140, 160] \<subseteq> detect_table_rows
     [\<lparr>ltext = ''1.'', lsize = 10, is_bold = False, bbox = (72, 100, 80, 110), page = 0,
        spans = []\<rparr>,
      \<lparr>ltext = ''Total'', lsize = 10, is_bold = False, bbox = (72, 120, 95, 130), page = 0,
        spans = []\<rparr>,
      \<lparr>ltext = ''2.'', lsize = 10, is_bold = False, bbox = (72, 140, 80, 150), page = 0,
        spans = []\<rparr>,
      \<lparr>ltext = ''3.'', lsize = 10, is_bold = False, bbox = (72, 160, 80, 170), page = 0,
        spans = []\<rparr>] \<and>
   has_run (List.map_filter line_number (sort_key (\<lambda>l. by0 (bbox l))
     [\<lparr>ltext = ''1.'', lsize = 10, is_bold = False, bbox = (72, 100, 80, 110), page = 0,
        spans = []\<rparr>,
      \<lparr>ltext = ''Total'', lsize = 10, is_bold = False, bbox = (72, 120, 95, 130), page = 0,
        spans = []\<rparr>,
      \<lparr>ltext = ''2.'', lsize = 10, is_bold = False, bbox = (72, 140, 80, 150), page = 0,
        spans = []\<rparr>,
      \<lparr>ltext = ''3.'', lsize = 10, is_bold = False, bbox = (72, 160, 80, 170), page = 0,
        spans = []\<rparr>]))"
proof -
  let ?ex = "[\<lparr>ltext = ''1.'', lsize = 10, is_bold = False, bbox = (72, 100, 80, 110), page = 0,
        spans = []\<rparr>,
      \<lparr>ltext = ''Total'', lsize = 10, is_bold = False, bbox = (72, 120, 95, 130), page = 0,
        spans = []\<rparr>,
      \<lparr>ltext = ''2.'', lsize = 10, is_bold = False, bbox = (72, 140, 80, 150), page = 0,
        spans = []\<rparr>,
      \<lparr>ltext = ''3.'', lsize = 10, is_bold = False, bbox = (72, 160, 80, 170), page = 0,
        spans = []\<rparr>]"
  have g1: "(0, ?ex) \<in> set (group_by page ?ex)"
    by code_simp
  have g2: "(70, ?ex) \<in> set (group_by x_bucket ?ex)"
    by code_simp
  have h: "bucket_rows ?ex = [100, 140, 160]"
    by code_simp
  note t = table_rows_numeric_run [of ?ex, THEN conjunct2, rule_format, OF conjI, OF g1 g2]
  note sub = t [THEN conjunct2, THEN conjunct2, THEN conjunct1, unfolded h]
  note iff = t [THEN conjunct2, THEN conjunct2, THEN conjunct2, unfolded Let_def,
      THEN conjunct1, THEN iffD1]
  have ne: "bucket_rows ?ex \<noteq> []" unfolding h by (rule list.distinct(2))
  note r = iff [OF ne, THEN conjunct2]
  show ?thesis
    by (rule conjI [OF g1 conjI [OF g2 conjI [OF h conjI [OF sub r]]]])
qed

text \<open>
  Claim C6 as stated fails: in a bucket with the lines ``1.'', ``Total'', ``2.'', ``3.''
  no three lines in a row parse as \<open>n\<close>, \<open>n + 1\<close>, \<open>n + 2\<close>, yet three Y-coordinates
  are added.
\<close>

theorem bucket_rows_consecutive_lines_counterexample:
  "bucket_rows
     [\<lparr>ltext = ''1.'', lsize = 10, is_bold = False, bbox = (72, 100, 80, 110), page = 0,
        spans = []\<rparr>,
      \<lparr>ltext = ''Total'', lsize = 10, is_bold = False, bbox = (72, 120, 95, 130), page = 0,
        spans = []\<rparr>,
      \<lparr>ltext = ''2.'', lsize = 10, is_bold = False, bbox = (72, 140, 80, 150), page = 0,
        spans = []\<rparr>,
      \<lparr>ltext = ''3.'', lsize = 10, is_bold = False, bbox = (72, 160, 80, 170), page = 0,
        spans = []\<rparr>] = [100, 140, 160] \<and>
   \<not> three_consecutive_lines (sort_key (\<lambda>l. by0 (bbox l))
     [\<lparr>ltext = ''1.'', lsize = 10, is_bold = False, bbox = (72, 100, 80, 110), page = 0,
        spans = []\<rparr>,
      \<lparr>ltext = ''Total'', lsize = 10, is_bold = False, bbox = (72, 120, 95, 130), page = 0,
        spans = []\<rparr>,
      \<lparr>ltext = ''2.'', lsize = 10, is_bold = False, bbox = (72, 140, 80, 150), page = 0,
        spans = []\<rparr>,
      \<lparr>ltext = ''3.'', lsize = 10, is_bold = False, bbox = (72, 160, 80, 170), page = 0,
        spans = []\<rparr>])"
  by code_simp

subsection \<open>Empty documents and level assignment\<close>

lemma level_name_simps:
  "level_name 0 = ''H1''" "level_name (Suc 0) = ''H2''" "level_name (Suc (Suc n)) = ''H3''"
  by (simp_all add: level_name_def min_def)

lemma level_name_cases: "level_name i \<in> {''H1'', ''H2'', ''H3''}"
  by (cases i; cases "i - 1") (auto simp: level_name_simps)

lemma level_name_H1: "level_name i = ''H1'' \<longleftrightarrow> i = 0"
  by (cases i; cases "i - 1") (auto simp: level_name_simps)

lemma level_name_H2: "level_name i = ''H2'' \<longleftrightarrow> i = 1"
  by (cases i; cases "i - 1") (auto simp: level_name_simps)

lemma level_name_H3: "level_name i = ''H3'' \<longleftrightarrow> 2 \<le> i"
  by (cases i; cases "i - 1") (auto simp: level_name_simps)

text \<open>
  Claim C4. A document from which no line is extracted (also one that cannot be opened)
  yields exactly the empty result: an empty title and an empty outline.
\<close>

theorem empty_document_result:
  "(case doc of None \<Rightarrow> True | Some pages \<Rightarrow> extract_lines pages = []) \<Longrightarrow>
   extract_pdf_outline fit_predict doc = \<lparr>title = [], outline = []\<rparr>"
  by (cases doc) (simp_all add: extract_pdf_outline_def outline_of_lines_def empty_result_def)

theorem empty_document_result_witness:
  "extract_lines [\<lparr>pg_height = 792,
        pg_blocks = Some [Some [\<lparr>rl_spans = Some [\<lparr>span_text = Some ''Page 3 of 10'',
                                                   span_size = Some 24, span_flags = Some 16\<rparr>],
                                 rl_bbox = Some (72, 700, 200, 724)\<rparr>]]\<rparr>] = [] \<and>
   extract_pdf_outline (\<lambda>X k. [])
     (Some [\<lparr>pg_height = 792,
        pg_blocks = Some [Some [\<lparr>rl_spans = Some [\<lparr>span_text = Some ''Page 3 of 10'',
                                                   span_size = Some 24, span_flags = Some 16\<rparr>],
                                 rl_bbox = Some (72, 700, 200, 724)\<rparr>]]\<rparr>])
   = \<lparr>title = [], outline = []\<rparr>"
proof -
  have h: "extract_lines [\<lparr>pg_height = 792,
        pg_blocks = Some [Some [\<lparr>rl_spans = Some [\<lparr>span_text = Some ''Page 3 of 10'',
                                                   span_size = Some 24, span_flags = Some 16\<rparr>],
                                 rl_bbox = Some (72, 700, 200, 724)\<rparr>]]\<rparr>] = []"
    by code_simp
  have "(case Some [\<lparr>pg_height = 792,
        pg_blocks = Some [Some [\<lparr>rl_spans = Some [\<lparr>span_text = Some ''Page 3 of 10'',
                                                   span_size = Some 24, span_flags = Some 16\<rparr>],
                                 rl_bbox = Some (72, 700, 200, 724)\<rparr>]]\<rparr>] of None \<Rightarrow> True | Some pages \<Rightarrow> extract_lines pages = [])"
    using h by (simp only: option.case)
  from empty_document_result [OF this] h show ?thesis by blast
qed

lemma cluster_sizes_distinct: "distinct (map fst (cluster_sizes labels candidates))"
proof -
  have "map fst (cluster_sizes labels candidates)
        = map fst (group_by fst (zip labels (map lsize candidates)))"
    by (simp add: cluster_sizes_def case_prod_unfold comp_def)
  then show ?thesis by (simp add: group_by_distinct)
qed

lemma level_map_lookup:
  "map_of (level_map sc) c = Some lv \<Longrightarrow> \<exists>i < length sc. sc ! i = c \<and> lv = level_name i"
proof -
  assume "map_of (level_map sc) c = Some lv"
  then have "(c, lv) \<in> set (level_map sc)" by (rule map_of_SomeD)
  then obtain i c' where "(i, c') \<in> set (enumerate 0 sc)" "c = c'" "lv = level_name i"
    unfolding level_map_def by auto
  then show ?thesis by (auto simp: in_set_enumerate_eq)
qed

lemma ranked_means:
  assumes d: "distinct (map fst sizes)"
    and i: "i < length sizes" and j: "j < length sizes" and ij: "i \<le> j"
    and a: "map_of sizes (sorted_clusters sizes ! i) = Some xa"
    and b: "map_of sizes (sorted_clusters sizes ! j) = Some xb"
  shows "mean xb \<le> mean xa"
proof -
  let ?k = "\<lambda>(label, xs). - mean xs"
  let ?ss = "sort_key ?k sizes"
  have len: "length ?ss = length sizes" by simp
  have mem: "?ss ! i \<in> set sizes" "?ss ! j \<in> set sizes"
    using i j len by (metis nth_mem set_sort)+
  have "map_of sizes (fst (?ss ! i)) = Some (snd (?ss ! i))"
    using d mem(1) by (simp add: map_of_eq_Some_iff)
  moreover have "sorted_clusters sizes ! i = fst (?ss ! i)"
    using i by (simp add: sorted_clusters_def)
  ultimately have xa: "xa = snd (?ss ! i)" using a by simp
  have "map_of sizes (fst (?ss ! j)) = Some (snd (?ss ! j))"
    using d mem(2) by (simp add: map_of_eq_Some_iff)
  moreover have "sorted_clusters sizes ! j = fst (?ss ! j)"
    using j by (simp add: sorted_clusters_def)
  ultimately have xb: "xb = snd (?ss ! j)" using b by simp
  have "sorted (map ?k ?ss)" by (rule sorted_sort_key)
  then have "map ?k ?ss ! i \<le> map ?k ?ss ! j"
    using ij j len by (simp add: sorted_iff_nth_mono del: length_sort)
  then have "?k (?ss ! i) \<le> ?k (?ss ! j)" using i j ij by simp
  then show ?thesis using xa xb by (simp add: case_prod_unfold)
qed

lemma assign_levels_collect:
  "collect (\<lambda>(label, c). case map_of lm label of
                             None \<Rightarrow> Inl KeyError
                           | Some lv \<Rightarrow> Inr (c\<lparr>level := Some lv\<rparr>)) zs = Inr out \<Longrightarrow>
   \<forall>c \<in> set out. \<exists>lv \<in> snd ` set lm. level c = Some lv"
proof (induction zs arbitrary: out)
  case (Cons z zs)
  obtain label c where z: "z = (label, c)" by (cases z)
  from Cons.prems z obtain lv ys where
    lv: "map_of lm label = Some lv" and
    ys: "collect (\<lambda>(label, c). case map_of lm label of
                             None \<Rightarrow> Inl KeyError
                           | Some lv \<Rightarrow> Inr (c\<lparr>level := Some lv\<rparr>)) zs = Inr ys" and
    out: "out = c\<lparr>level := Some lv\<rparr> # ys"
    by (auto split: option.splits sum.splits)
  from lv have "lv \<in> snd ` set lm" by (metis map_of_SomeD snd_conv image_eqI)
  with Cons.IH [OF ys] out show ?case by auto
qed simp

lemma level_map_names: "lv \<in> snd ` set (level_map sc) \<Longrightarrow> lv \<in> {''H1'', ''H2'', ''H3''}"
proof -
  assume "lv \<in> snd ` set (level_map sc)"
  then obtain i where "lv = level_name i" unfolding level_map_def by auto
  then show ?thesis using level_name_cases [of i] by simp
qed

lemma cluster_rank_order:
  assumes a: "map_of (cluster_sizes labels candidates) a = Some xa"
    and b: "map_of (cluster_sizes labels candidates) b = Some xb"
    and la: "map_of (level_map (sorted_clusters (cluster_sizes labels candidates))) a = Some la"
    and lb: "map_of (level_map (sorted_clusters (cluster_sizes labels candidates))) b = Some lb"
    and lv: "(la = ''H1'' \<and> lb = ''H2'') \<or> (la = ''H2'' \<and> lb = ''H3'') \<or>
             (la = ''H1'' \<and> lb = ''H3'')"
  shows "mean xb \<le> mean xa"
proof -
  define sizes where "sizes = cluster_sizes labels candidates"
  have d: "distinct (map fst sizes)" unfolding sizes_def by (rule cluster_sizes_distinct)
  have len: "length (sorted_clusters sizes) = length sizes" by (simp add: sorted_clusters_def)
  from level_map_lookup [OF la] obtain i where
    i: "i < length sizes" "sorted_clusters sizes ! i = a" "la = level_name i"
    unfolding sizes_def [symmetric] len by blast
  from level_map_lookup [OF lb] obtain j where
    j: "j < length sizes" "sorted_clusters sizes ! j = b" "lb = level_name j"
    unfolding sizes_def [symmetric] len by blast
  have "i \<le> j"
  proof -
    from lv consider "la = ''H1''" "lb = ''H2''" | "la = ''H2''" "lb = ''H3''"
      | "la = ''H1''" "lb = ''H3''" by blast
    then show ?thesis
    proof cases
      case 1
      then have "i = 0" using i(3) level_name_H1 by metis
      then show ?thesis by simp
    next
      case 2
      then have "i = 1" "2 \<le> j" using i(3) j(3) level_name_H2 level_name_H3 by metis+
      then show ?thesis by simp
    next
      case 3
      then have "i = 0" using i(3) level_name_H1 by metis
      then show ?thesis by simp
    qed
  qed
  then show ?thesis
    using ranked_means [OF d i(1) j(1), of xa xb] a b i(2) j(2)
    unfolding sizes_def [symmetric] by simp
qed

lemma level_map_range:
  assumes "map_of (level_map sc) c = Some lv"
  shows "lv \<in> {''H1'', ''H2'', ''H3''}"
proof -
  from assms have "(c, lv) \<in> set (level_map sc)" by (rule map_of_SomeD)
  then have "lv \<in> snd ` set (level_map sc)" by force
  then show ?thesis by (rule level_map_names)
qed

lemma assign_levels_range:
  assumes "assign_levels fit_predict candidates = Inr leveled" and "c \<in> set leveled"
  shows "level c \<in> {Some ''H1'', Some ''H2'', Some ''H3''}"
proof (cases "2 \<le> length candidates")
  case True
  define labels where
    "labels = fit_predict (map features_of candidates) (min 3 (max 2 (length candidates div 2)))"
  define lm where "lm = level_map (sorted_clusters (cluster_sizes labels candidates))"
  have "collect (\<lambda>(label, c). case map_of lm label of
                             None \<Rightarrow> Inl KeyError
                           | Some lv \<Rightarrow> Inr (c\<lparr>level := Some lv\<rparr>)) (zip labels candidates)
        = Inr leveled"
    using assms(1) True
    unfolding assign_levels_def Let_def labels_def [symmetric] lm_def [symmetric]
    by (simp split: if_splits)
  from assign_levels_collect [OF this] assms(2) obtain lv where
    lv: "lv \<in> snd ` set lm" "level c = Some lv" by blast
  from lv(1) have "lv \<in> {''H1'', ''H2'', ''H3''}"
    unfolding lm_def by (rule level_map_names)
  with lv(2) show ?thesis by simp
next
  case False
  then have "candidates = [] \<or> (\<exists>x. candidates = [x])"
    by (cases candidates; cases "tl candidates") auto
  then show ?thesis
  proof
    assume "candidates = []"
    with assms(1) show ?thesis by (simp add: assign_levels_def)
  next
    assume "\<exists>x. candidates = [x]"
    then obtain x where "candidates = [x]" by blast
    with assms have "c = x\<lparr>level := Some ''H1''\<rparr>" by (auto simp: assign_levels_def)
    then show ?thesis by simp
  qed
qed

subsection \<open>Normalisation and case\<close>

lemma upper_not_space: "is_upper_c c \<Longrightarrow> \<not> is_space c \<and> \<not> is_space (char_lower c)"
  apply (simp add: is_upper_c_def, elim disjE)
  by (simp_all add: is_space_def char_lower_def)

lemma not_upper_lower: "\<not> is_upper_c c \<Longrightarrow> char_lower c = c"
  by (simp add: is_upper_c_def char_lower_def)

lemma is_space_char_lower: "is_space (char_lower c) = is_space c"
  using upper_not_space not_upper_lower by (cases "is_upper_c c") auto

lemma char_lower_space: "is_space c \<Longrightarrow> char_lower c = c"
  using upper_not_space not_upper_lower by blast

lemma lower_char_upper: "is_lower_c c \<Longrightarrow> char_lower (char_upper c) = c \<and> char_lower c = c"
  apply (simp add: is_lower_c_def, elim disjE)
  by (simp_all add: char_lower_def char_upper_def)

lemma not_lower_upper: "\<not> is_lower_c c \<Longrightarrow> char_upper c = c"
  by (simp add: is_lower_c_def char_upper_def)

lemma char_lower_char_upper: "char_lower (char_upper c) = char_lower c"
  using lower_char_upper not_lower_upper by (cases "is_lower_c c") auto

lemma lower_capitalize: "lower (capitalize_first_letter s) = lower s"
  by (induction s) (simp_all add: lower_def char_lower_char_upper)















lemma dropWhile_space_lower: "dropWhile is_space (lower s) = lower (dropWhile is_space s)"
  by (induction s) (simp_all add: lower_def is_space_char_lower)

lemma lower_rev: "lower (rev s) = rev (lower s)"
  by (simp add: lower_def rev_map)

lemma strip_lower: "strip (lower s) = lower (strip s)"
  by (simp add: strip_def dropWhile_space_lower lower_rev [symmetric])

lemma char_lower_blank: "char_lower (CHR '' '') = CHR '' ''"
  by (simp add: char_lower_def)

lemma collapse_ws_lower: "collapse_ws (lower s) = lower (collapse_ws s)"
  by (induction s rule: collapse_ws.induct)
     (simp_all add: lower_def is_space_char_lower char_lower_space char_lower_blank)

lemma normalize_text_lower: "normalize_text (lower s) = lower (normalize_text s)"
  by (simp add: normalize_text_def collapse_ws_lower strip_lower)

subsection \<open>Invariants of the pipeline\<close>

lemma collect_all2: "collect f xs = Inr ys \<Longrightarrow> list_all2 (\<lambda>x y. f x = Inr y) xs ys"
proof (induction xs arbitrary: ys)
  case (Cons x xs)
  then show ?case by (auto split: sum.splits)
qed simp

lemma list_all2_mem_right: "list_all2 P xs ys \<Longrightarrow> y \<in> set ys \<Longrightarrow> \<exists>x \<in> set xs. P x y"
  by (induction xs ys rule: list_all2_induct) auto

lemma dedupe_subset: "set (dedupe seen xs) \<subseteq> set xs"
  by (induction xs arbitrary: seen) (auto simp: Let_def)








lemma candidate_of_Some:
  "candidate_of title_str tbl med bf prev l = Some c \<Longrightarrow>
   ltext c = ltext l \<and> page c = page l \<and> bbox c = bbox l \<and> \<not> is_title_line title_str l \<and>
   is_valid_heading (ltext l) \<and> \<not> is_in_table_row (bbox l) tbl \<and>
   heading_score med bf prev l \<ge> 4"
  unfolding candidate_of_def Let_def
  by (auto simp: line.defs split: if_splits)

lemma scan_candidates_mem:
  "c \<in> set (scan_candidates title_str tbl med bf prev ls) \<Longrightarrow>
   \<exists>l \<in> set ls. ltext c = ltext l \<and> \<not> is_title_line title_str l \<and> is_valid_heading (ltext l)"
proof (induction ls arbitrary: prev)
  case (Cons l ls)
  show ?case
  proof (cases "candidate_of title_str tbl med bf prev l")
    case None
    with Cons show ?thesis by auto
  next
    case (Some c')
    show ?thesis
    proof (cases "c = c'")
      case True
      with candidate_of_Some [OF Some] show ?thesis by auto
    next
      case False
      with Cons Some show ?thesis by auto
    qed
  qed
qed simp

lemma filter_loop_subset: "set (filter_loop skip xs) \<subseteq> set xs"
proof (induction skip xs rule: filter_loop.induct)
  case (2 skip i current rest)
  then show ?case by (auto simp: Let_def split: if_splits)
qed simp

lemma filter_horizontal_subset: "set (filter_horizontal_table_headers cs) \<subseteq> set cs"
proof -
  have "snd ` set (filter_loop {} (enumerate 0 (candidates_sorted cs)))
        \<subseteq> snd ` set (enumerate 0 (candidates_sorted cs))"
    using filter_loop_subset by blast
  also have "\<dots> \<subseteq> set (candidates_sorted cs)"
    by (auto simp: in_set_enumerate_eq)
  also have "\<dots> = set cs" by (simp add: candidates_sorted_def)
  finally show ?thesis by (simp add: filter_horizontal_table_headers_def)
qed

lemma refine_subset:
  "set (filter_headings_with_content
          (filter_horizontal_table_headers (filter_inconsistent_formatting cs)) ls) \<subseteq> set cs"
proof -
  have "set (filter_headings_with_content
          (filter_horizontal_table_headers (filter_inconsistent_formatting cs)) ls)
        \<subseteq> set (filter_horizontal_table_headers (filter_inconsistent_formatting cs))"
    by (simp add: filter_headings_with_content_def)
  also have "\<dots> \<subseteq> set (filter_inconsistent_formatting cs)" by (rule filter_horizontal_subset)
  also have "\<dots> \<subseteq> set cs" by (simp add: filter_inconsistent_formatting_def)
  finally show ?thesis .
qed

lemma assign_levels_texts:
  assumes "assign_levels fit_predict cs = Inr out" and "c \<in> set out"
  shows "\<exists>c' \<in> set cs. ltext c = ltext c' \<and> page c = page c' \<and> bbox c = bbox c'"
proof (cases "2 \<le> length cs")
  case True
  define labels where
    "labels = fit_predict (map features_of cs) (min 3 (max 2 (length cs div 2)))"
  define lm where "lm = level_map (sorted_clusters (cluster_sizes labels cs))"
  define f :: "nat \<times> candidate \<Rightarrow> error + candidate"
    where "f = (\<lambda>(label, c). case map_of lm label of
                             None \<Rightarrow> Inl KeyError
                           | Some lv \<Rightarrow> Inr (c\<lparr>level := Some lv\<rparr>))"
  have "collect f (zip labels cs) = Inr out"
    using assms(1) True
    unfolding assign_levels_def Let_def labels_def [symmetric] lm_def [symmetric] f_def
    by (simp split: if_splits)
  then have "list_all2 (\<lambda>x y. f x = Inr y) (zip labels cs) out" by (rule collect_all2)
  from list_all2_mem_right [OF this assms(2)]
  obtain z where z: "z \<in> set (zip labels cs)" "f z = Inr c" by blast
  obtain label c' where zc: "z = (label, c')" by (cases z)
  with z(1) have "c' \<in> set cs" by (meson set_zip_rightD)
  moreover from z(2) zc have "\<exists>lv. c = c'\<lparr>level := Some lv\<rparr>"
    by (auto simp: f_def split: option.splits)
  ultimately show ?thesis by auto
next
  case False
  then have "cs = [] \<or> (\<exists>x. cs = [x])"
    by (cases cs; cases "tl cs") auto
  then show ?thesis
  proof
    assume "cs = []"
    with assms(1) show ?thesis by (simp add: assign_levels_def)
  next
    assume "\<exists>x. cs = [x]"
    then obtain x where "cs = [x]" by blast
    with assms have "c = x\<lparr>level := Some ''H1''\<rparr>" by (auto simp: assign_levels_def)
    with \<open>cs = [x]\<close> show ?thesis by simp
  qed
qed

lemma sort_outline_set:
  assumes "sort_outline cs es = Inr out"
  shows "set out = set es"
proof -
  define f where "f = (\<lambda>x. case sort_key_of cs x of
                          Inl e \<Rightarrow> Inl e
                        | Inr k \<Rightarrow> Inr (k, x))"
  from assms obtain keyed where k: "collect f es = Inr keyed"
    and out: "out = map snd (sort_key fst keyed)"
    unfolding sort_outline_def f_def by (auto split: sum.splits)
  from k have "list_all2 (\<lambda>x y. f x = Inr y) es keyed" by (rule collect_all2)
  then have "list_all2 (\<lambda>x y. snd y = x) es keyed"
    by (rule list_all2_mono) (auto simp: f_def split: sum.splits)
  then have "map snd keyed = es"
    by (induction es keyed rule: list_all2_induct) auto
  then have "snd ` set keyed = set es" by (metis set_map)
  with out show ?thesis by simp
qed

subsection \<open>Title and outline\<close>

lemma outline_of_lines_Inr:
  assumes "outline_of_lines fit_predict h ls = Inr r" and "outline r \<noteq> []"
  shows "\<exists>leveled sorted_outline.
           extract_title (filter (\<lambda>l. page l = 0) ls) (median (map lsize ls)) h = Inr (title r) \<and>
           set leveled \<subseteq> (\<Union>c \<in> set (scan_candidates (title r) (detect_table_rows ls)
                                  (median (map lsize ls))
                                  (real (length (filter is_bold ls)) / real (length ls)) None ls).
                            {c'. ltext c' = ltext c \<and> page c' = page c \<and> bbox c' = bbox c}) \<and>
           sort_outline leveled (map entry_of leveled) = Inr sorted_outline \<and>
           outline r = dedupe {} sorted_outline"
proof -
  from assms have ne: "ls \<noteq> []"
    by (auto simp: outline_of_lines_def empty_result_def)
  then have fs: "map lsize ls \<noteq> []" by simp
  obtain t where t: "extract_title (filter (\<lambda>l. page l = 0) ls) (median (map lsize ls)) h = Inr t"
    using assms(1) ne unfolding outline_of_lines_def Let_def
    by (cases "extract_title (filter (\<lambda>l. page l = 0) ls) (median (map lsize ls)) h") auto
  define c0 where "c0 = scan_candidates t (detect_table_rows ls) (median (map lsize ls))
                          (real (length (filter is_bold ls)) / real (length ls)) None ls"
  define cs where "cs = (if c0 \<noteq> [] then
                           filter_headings_with_content
                             (filter_horizontal_table_headers (filter_inconsistent_formatting c0)) ls
                         else c0)"
  have eq: "outline_of_lines fit_predict h ls =
        (if cs = [] then Inr \<lparr>title = t, outline = []\<rparr>
         else (case assign_levels fit_predict cs of
                 Inl e \<Rightarrow> Inl e
               | Inr leveled \<Rightarrow>
                   (case sort_outline leveled (map entry_of leveled) of
                      Inl e \<Rightarrow> Inl e
                    | Inr sorted_outline \<Rightarrow>
                        Inr \<lparr>title = t, outline = dedupe {} sorted_outline\<rparr>)))"
    unfolding outline_of_lines_def Let_def cs_def c0_def using ne t by simp
  have sub: "set cs \<subseteq> set c0"
    unfolding cs_def using refine_subset by auto
  from eq assms have cne: "cs \<noteq> []" by auto
  with eq assms(1) obtain leveled where lev: "assign_levels fit_predict cs = Inr leveled"
    by (cases "assign_levels fit_predict cs") auto
  with eq cne assms(1) obtain so where so: "sort_outline leveled (map entry_of leveled) = Inr so"
    by (cases "sort_outline leveled (map entry_of leveled)") auto
  with eq cne lev assms(1) have r: "r = \<lparr>title = t, outline = dedupe {} so\<rparr>" by simp
  have "set leveled \<subseteq> (\<Union>c \<in> set c0.
                            {c'. ltext c' = ltext c \<and> page c' = page c \<and> bbox c' = bbox c})"
  proof
    fix c assume "c \<in> set leveled"
    from assign_levels_texts [OF lev this] obtain c' where
      "c' \<in> set cs" "ltext c = ltext c'" "page c = page c'" "bbox c = bbox c'" by blast
    with sub show "c \<in> (\<Union>c \<in> set c0.
                            {c'. ltext c' = ltext c \<and> page c' = page c \<and> bbox c' = bbox c})"
      by auto
  qed
  with t so r show ?thesis unfolding c0_def by auto
qed


lemma outline_entry_origin:
  assumes "outline_of_lines fit_predict h ls = Inr r" and "e \<in> set (outline r)"
  shows "\<exists>l \<in> set ls. e_text e = capitalize_first_letter (ltext l) \<and>
           \<not> is_title_line (title r) l \<and> is_valid_heading (ltext l)"
proof -
  from assms(2) have "outline r \<noteq> []" by auto
  from outline_of_lines_Inr [OF assms(1) this] obtain leveled so where
    lev: "set leveled \<subseteq> (\<Union>c \<in> set (scan_candidates (title r) (detect_table_rows ls)
                                  (median (map lsize ls))
                                  (real (length (filter is_bold ls)) / real (length ls)) None ls).
                            {c'. ltext c' = ltext c \<and> page c' = page c \<and> bbox c' = bbox c})"
    and so: "sort_outline leveled (map entry_of leveled) = Inr so"
    and out: "outline r = dedupe {} so"
    by blast
  from assms(2) out have "e \<in> set so" using dedupe_subset [of "{}" so] by auto
  then have "e \<in> set (map entry_of leveled)" using sort_outline_set [OF so] by simp
  then obtain c where c: "c \<in> set leveled" "e = entry_of c" by auto
  with lev obtain c0 where c0: "c0 \<in> set (scan_candidates (title r) (detect_table_rows ls)
                                  (median (map lsize ls))
                                  (real (length (filter is_bold ls)) / real (length ls)) None ls)"
    "ltext c = ltext c0" by auto
  from scan_candidates_mem [OF c0(1)] obtain l where
    "l \<in> set ls" "ltext c0 = ltext l" "\<not> is_title_line (title r) l" "is_valid_heading (ltext l)"
    by blast
  with c c0(2) show ?thesis by (auto simp: entry_of_def)
qed

lemma is_valid_heading_nonempty: "is_valid_heading t \<Longrightarrow> normalize_text t \<noteq> []"
proof
  assume v: "is_valid_heading t" and "normalize_text t = []"
  then have "\<not> list_ex is_alpha (normalize_text t)" by simp
  then have "\<not> is_valid_heading t" by (simp add: is_valid_heading_def Let_def)
  with v show False by blast
qed

lemma lower_normalize_capitalize:
  "lower (normalize_text (capitalize_first_letter t)) = lower (normalize_text t)"
  by (metis lower_capitalize normalize_text_lower)

lemma lower_Nil_iff: "lower s = [] \<longleftrightarrow> s = []"
  by (simp add: lower_def)

lemma normalize_text_Nil: "normalize_text [] = []"
  by (simp add: normalize_text_def strip_def)

text \<open>
  Claim C3. No entry of the returned outline has a case-insensitive normalised text equal
  to that of the returned title: a line matching a non-empty title is never scored, and
  an empty title matches no heading, since a heading holds a letter.
\<close>

theorem title_not_in_outline:
  "e \<in> set (outline (extract_pdf_outline fit_predict doc)) \<Longrightarrow>
   lower (normalize_text (e_text e))
     \<noteq> lower (normalize_text (title (extract_pdf_outline fit_predict doc)))"
proof -
  assume e: "e \<in> set (outline (extract_pdf_outline fit_predict doc))"
  then obtain pages where doc: "doc = Some pages"
    by (cases doc) (auto simp: extract_pdf_outline_def empty_result_def)
  with e obtain r where
    r: "outline_of_lines fit_predict (first_page_height pages) (extract_lines pages) = Inr r"
    by (cases "outline_of_lines fit_predict (first_page_height pages) (extract_lines pages)")
       (auto simp: extract_pdf_outline_def empty_result_def)
  with doc have res: "extract_pdf_outline fit_predict doc = r"
    by (simp add: extract_pdf_outline_def)
  from outline_entry_origin [OF r] e res obtain l where
    l: "e_text e = capitalize_first_letter (ltext l)" "\<not> is_title_line (title r) l"
       "is_valid_heading (ltext l)" by auto
  have k: "lower (normalize_text (e_text e)) = lower (normalize_text (ltext l))"
    using l(1) by (simp add: lower_normalize_capitalize)
  show ?thesis
  proof (cases "title r = []")
    case True
    from l(3) have "lower (normalize_text (ltext l)) \<noteq> []"
      using is_valid_heading_nonempty lower_Nil_iff by blast
    with True k res show ?thesis by (simp add: normalize_text_Nil lower_def)
  next
    case False
    with l(2) have "lower (normalize_text (ltext l)) \<noteq> lower (normalize_text (title r))"
      by (simp add: is_title_line_def)
    with k res show ?thesis by simp
  qed
qed

subsection \<open>The example document, evaluated\<close>

lemma example_document_result:
  "extract_pdf_outline (\<lambda>X k. []) (Some example_document) =
   \<lparr>title = ''Project Charter'',
    outline = [\<lparr>e_level = ''H1'', e_text = ''1. Introduction'', e_page = 0\<rparr>]\<rparr>"
  by code_simp

theorem title_not_in_outline_witness:
  "\<lparr>e_level = ''H1'', e_text = ''1. Introduction'', e_page = 0\<rparr>
     \<in> set (outline (extract_pdf_outline (\<lambda>X k. []) (Some example_document))) \<and>
   lower (normalize_text ''1. Introduction'')
     \<noteq> lower (normalize_text (title (extract_pdf_outline (\<lambda>X k. []) (Some example_document))))"
proof -
  have m: "\<lparr>e_level = ''H1'', e_text = ''1. Introduction'', e_page = 0\<rparr>
     \<in> set (outline (extract_pdf_outline (\<lambda>X k. []) (Some example_document)))"
    unfolding example_document_result by simp
  from title_not_in_outline [OF m] m show ?thesis by simp
qed

subsection \<open>Deduplication\<close>



subsection \<open>Heading scores\<close>

lemma scan_candidates_zip:
  "scan_candidates title_str tbl med bf prev ls =
   List.map_filter (\<lambda>(p, l). candidate_of title_str tbl med bf p l)
     (zip (prev # map Some ls) ls)"
  by (induction ls arbitrary: prev) (auto simp: List.map_filter_simps split: option.splits)

text \<open>
  Claim C5. A line that reaches the scoring step (it passed the title guard, the
  validity check and the table-row check) becomes a candidate exactly when its score is
  at least 4. The score is the sum of one of the size and bold rules (the first that
  applies) and of the four bonuses, each added on its own; the candidate list holds
  exactly the lines the loop accepts, in order.
\<close>

theorem candidate_iff_score:
  "(\<not> is_title_line title_str l \<and> is_valid_heading (ltext l) \<and>
    \<not> is_in_table_row (bbox l) tbl \<longrightarrow>
      (candidate_of title_str tbl med bf prev l \<noteq> None \<longleftrightarrow>
       heading_score med bf prev l \<ge> 4)) \<and>
   heading_score med bf prev l =
     (if np_gt (np_div (lsize l) med) 1.3 then 4
      else if np_gt (np_div (lsize l) med) 1.15 \<and> is_bold l then 3
      else if is_bold l \<and> bf < 0.2 then 3 else 0)
     + (if vertical_gap_of prev l > 20 then 2 else 0)
     + (if re_match numbered_marker (ltext l) then 3 else 0)
     + (if length (split_ws (ltext l)) \<le> 6 \<and> is_bold l then 2 else 0)
     + (if real (length (filter word_is_capitalized (split_ws (ltext l))))
           / real (max 1 (length (split_ws (ltext l)))) > 0.7 then 2 else 0) \<and>
   scan_candidates title_str tbl med bf None all_lines =
     List.map_filter (\<lambda>(p, l). candidate_of title_str tbl med bf p l)
       (zip (None # map Some all_lines) all_lines)"
proof (intro conjI impI)
  assume "\<not> is_title_line title_str l \<and> is_valid_heading (ltext l) \<and>
    \<not> is_in_table_row (bbox l) tbl"
  then show "candidate_of title_str tbl med bf prev l \<noteq> None \<longleftrightarrow>
       heading_score med bf prev l \<ge> 4"
    by (simp add: candidate_of_def Let_def)
next
  show "heading_score med bf prev l =
     (if np_gt (np_div (lsize l) med) 1.3 then 4
      else if np_gt (np_div (lsize l) med) 1.15 \<and> is_bold l then 3
      else if is_bold l \<and> bf < 0.2 then 3 else 0)
     + (if vertical_gap_of prev l > 20 then 2 else 0)
     + (if re_match numbered_marker (ltext l) then 3 else 0)
     + (if length (split_ws (ltext l)) \<le> 6 \<and> is_bold l then 2 else 0)
     + (if real (length (filter word_is_capitalized (split_ws (ltext l))))
           / real (max 1 (length (split_ws (ltext l)))) > 0.7 then 2 else 0)"
    unfolding heading_score_def Let_def by (rule refl)
next
  show "scan_candidates title_str tbl med bf None all_lines =
     List.map_filter (\<lambda>(p, l). candidate_of title_str tbl med bf p l)
       (zip (None # map Some all_lines) all_lines)"
    by (rule scan_candidates_zip)
qed

theorem candidate_iff_score_witness:
  "candidate_of ''Project Charter'' {} 12 (1 / 2) None
     \<lparr>ltext = ''1. Introduction'', lsize = 14, is_bold = True, bbox = (72, 150, 200, 166),
        page = 0, spans = []\<rparr> \<noteq> None \<and>
   heading_score 12 (1 / 2) None
     \<lparr>ltext = ''1. Introduction'', lsize = 14, is_bold = True, bbox = (72, 150, 200, 166),
        page = 0, spans = []\<rparr> = 8"
proof -
  let ?l = "\<lparr>ltext = ''1. Introduction'', lsize = 14, is_bold = True, bbox = (72, 150, 200, 166),
        page = 0, spans = []\<rparr>"
  have h: "\<not> is_title_line ''Project Charter'' ?l \<and> is_valid_heading (ltext ?l) \<and>
    \<not> is_in_table_row (bbox ?l) {}"
    by code_simp
  have s: "heading_score 12 (1 / 2) None ?l = 8"
    by code_simp
  have "(candidate_of ''Project Charter'' {} 12 (1 / 2) None ?l \<noteq> None) =
        (4 \<le> heading_score 12 (1 / 2) None ?l)"
    using candidate_iff_score [of "''Project Charter''" ?l "{}" 12 "1 / 2" None "[]",
        THEN conjunct1] h by blast
  with s show ?thesis by simp
qed

subsection \<open>Title ties\<close>

lemma sorted_le_last: "sorted ys \<Longrightarrow> q \<in> set ys \<Longrightarrow> q \<le> last ys"
  by (cases ys rule: rev_cases) (auto simp: sorted_append)

lemma sort_reverse_max:
  fixes xs :: "('a::linorder) list"
  assumes "xs \<noteq> []"
  shows "\<exists>p ps. sort_reverse xs = p # ps \<and> p \<in> set xs \<and> (\<forall>q \<in> set xs. q \<le> p)"
proof -
  let ?ys = "sort_key (\<lambda>x. x) (rev xs)"
  have ne: "?ys \<noteq> []" using assms by (metis length_0_conv length_rev length_sort)
  have s: "sorted ?ys" using sorted_sort_key [of "\<lambda>x. x" "rev xs"] by simp
  have set: "set ?ys = set xs" by simp
  have "sort_reverse xs = last ?ys # rev (butlast ?ys)"
    unfolding sort_reverse_def using ne by (metis append_butlast_last_id rev_eq_Cons_iff rev_rev_ident)
  moreover have "last ?ys \<in> set xs" using ne set last_in_set by blast
  moreover have "\<forall>q \<in> set xs. q \<le> last ?ys" using s set sorted_le_last by blast
  ultimately show ?thesis by blast
qed

lemma collect_length: "collect f xs = Inr ys \<Longrightarrow> length ys = length xs"
  using collect_all2 list_all2_lengthD by fastforce

lemma extract_title_largest:
  assumes "2 \<le> length (largest_candidates_of fpe h)"
  shows "extract_title fpe med h =
         (case collect (title_score med (h * 0.6)) (largest_candidates_of fpe h) of
            Inl e \<Rightarrow> Inl e
          | Inr scored_candidates \<Rightarrow>
              (case sort_reverse scored_candidates of
                 [] \<Rightarrow> Inr []
               | (sc, txt, sz) # _ \<Rightarrow> Inr (capitalize_first_letter txt)))"
proof -
  have fne: "xs \<noteq> []" if "filter P xs \<noteq> []" for P and xs :: "line list"
    using that by auto
  from assms have l: "largest_candidates_of fpe h \<noteq> []" by auto
  then have t: "title_candidates_of fpe h \<noteq> []"
    unfolding largest_candidates_of_def by (rule fne)
  then have top: "filter (\<lambda>elem. by0 (bbox elem) \<le> h * 0.6) fpe \<noteq> []"
    unfolding title_candidates_of_def by (rule fne)
  then have f: "fpe \<noteq> []" by (rule fne)
  obtain a b rest where abr: "largest_candidates_of fpe h = a # b # rest"
    using assms by (cases "largest_candidates_of fpe h"; cases "tl (largest_candidates_of fpe h)") auto
  show ?thesis
    unfolding extract_title_def Let_def
    using f top t abr
    unfolding largest_candidates_of_def title_candidates_of_def Let_def
    by simp
qed


lemma prod_le_tie:
  fixes t t' :: string and z z' :: real and s :: int
  shows "(s, t', z') \<le> (s, t, z) \<Longrightarrow> t' \<le> t"
  by (auto simp: less_eq_prod_def)

text \<open>
  Claim C2, as amended. With two or more largest candidates the title is the text of
  the greatest tuple (score, text, size): the highest score wins, and among equal
  scores the text that is greatest in code-point order, whatever the order of the
  lines on the page.
\<close>

theorem title_tie_break:
  assumes "2 \<le> length (largest_candidates_of fpe h)"
    and "collect (title_score med (h * 0.6)) (largest_candidates_of fpe h) = Inr scored"
  shows "\<exists>s txt z. (s, txt, z) \<in> set scored \<and>
           extract_title fpe med h = Inr (capitalize_first_letter txt) \<and>
           (\<forall>q \<in> set scored. q \<le> (s, txt, z)) \<and>
           (\<forall>txt' z'. (s, txt', z') \<in> set scored \<longrightarrow> txt' \<le> txt)"
proof -
  from collect_length [OF assms(2)] assms(1) have "scored \<noteq> []" by auto
  from sort_reverse_max [OF this] obtain p ps where
    p: "sort_reverse scored = p # ps" "p \<in> set scored" "\<forall>q \<in> set scored. q \<le> p"
    by blast
  obtain s t z where pe: "p = (s, t, z)" by (cases p)
  have "extract_title fpe med h = Inr (capitalize_first_letter t)"
    using extract_title_largest [OF assms(1), of med] assms(2) p(1) pe by simp
  moreover have "\<forall>t' z'. (s, t', z') \<in> set scored \<longrightarrow> t' \<le> t"
    using p(3) pe prod_le_tie by blast
  ultimately show ?thesis using p(2,3) pe by blast
qed

theorem title_tie_break_witness:
  "2 \<le> length (largest_candidates_of [\<lparr>ltext = ''Alpha'', lsize = 20, is_bold = False, bbox = (250, 50, 350, 70), page = 0,
        spans = []\<rparr>, \<lparr>ltext = ''Beta'', lsize = 20, is_bold = False, bbox = (250, 100, 350, 120), page = 0,
        spans = []\<rparr>] 792) \<and>
   collect (title_score 12 (792 * 0.6)) (largest_candidates_of [\<lparr>ltext = ''Alpha'', lsize = 20, is_bold = False, bbox = (250, 50, 350, 70), page = 0,
        spans = []\<rparr>, \<lparr>ltext = ''Beta'', lsize = 20, is_bold = False, bbox = (250, 100, 350, 120), page = 0,
        spans = []\<rparr>] 792)
     = Inr [(18, ''Alpha'', 20), (18, ''Beta'', 20)] \<and>
   (\<exists>s txt z. (s, txt, z) \<in> set ([(18, ''Alpha'', 20), (18, ''Beta'', 20)] :: (int \<times> string \<times> real) list) \<and>
      extract_title [\<lparr>ltext = ''Alpha'', lsize = 20, is_bold = False, bbox = (250, 50, 350, 70), page = 0,
        spans = []\<rparr>, \<lparr>ltext = ''Beta'', lsize = 20, is_bold = False, bbox = (250, 100, 350, 120), page = 0,
        spans = []\<rparr>] 12 792 = Inr (capitalize_first_letter txt) \<and>
      (\<forall>q \<in> set ([(18, ''Alpha'', 20), (18, ''Beta'', 20)] :: (int \<times> string \<times> real) list). q \<le> (s, txt, z)) \<and>
      (\<forall>txt' z'. (s, txt', z') \<in> set ([(18, ''Alpha'', 20), (18, ''Beta'', 20)] :: (int \<times> string \<times> real) list)
         \<longrightarrow> txt' \<le> txt))"
proof -
  let ?fpe = "[\<lparr>ltext = ''Alpha'', lsize = 20, is_bold = False, bbox = (250, 50, 350, 70), page = 0,
        spans = []\<rparr>, \<lparr>ltext = ''Beta'', lsize = 20, is_bold = False, bbox = (250, 100, 350, 120), page = 0,
        spans = []\<rparr>]"
  have h1: "2 \<le> length (largest_candidates_of ?fpe 792)"
    by code_simp
  have h2: "collect (title_score 12 (792 * 0.6)) (largest_candidates_of ?fpe 792)
     = Inr [(18, ''Alpha'', 20), (18, ''Beta'', 20)]"
    by code_simp
  from title_tie_break [OF h1 h2] h1 h2 show ?thesis by blast
qed

text \<open>
  Claim C2 as stated fails: ``Alpha'' comes first on the page, ``Beta'' second, both
  score 18, and the title is ``Beta''.
\<close>

theorem title_tie_encounter_order_counterexample:
  "largest_candidates_of [\<lparr>ltext = ''Alpha'', lsize = 20, is_bold = False, bbox = (250, 50, 350, 70), page = 0,
        spans = []\<rparr>, \<lparr>ltext = ''Beta'', lsize = 20, is_bold = False, bbox = (250, 100, 350, 120), page = 0,
        spans = []\<rparr>] 792 = [\<lparr>ltext = ''Alpha'', lsize = 20, is_bold = False, bbox = (250, 50, 350, 70), page = 0,
        spans = []\<rparr>, \<lparr>ltext = ''Beta'', lsize = 20, is_bold = False, bbox = (250, 100, 350, 120), page = 0,
        spans = []\<rparr>] \<and>
   title_score 12 (792 * 0.6) \<lparr>ltext = ''Alpha'', lsize = 20, is_bold = False, bbox = (250, 50, 350, 70), page = 0,
        spans = []\<rparr> = Inr (18, ''Alpha'', 20) \<and>
   title_score 12 (792 * 0.6) \<lparr>ltext = ''Beta'', lsize = 20, is_bold = False, bbox = (250, 100, 350, 120), page = 0,
        spans = []\<rparr> = Inr (18, ''Beta'', 20) \<and>
   extract_title [\<lparr>ltext = ''Alpha'', lsize = 20, is_bold = False, bbox = (250, 50, 350, 70), page = 0,
        spans = []\<rparr>, \<lparr>ltext = ''Beta'', lsize = 20, is_bold = False, bbox = (250, 100, 350, 120), page = 0,
        spans = []\<rparr>] 12 792 = Inr ''Beta''"
  by code_simp

subsection \<open>Horizontal table headers\<close>

lemma scan_neighbors_sound:
  "j \<in> set (scan_neighbors skip cur rest) \<Longrightarrow>
   \<exists>other. (j, other) \<in> set rest \<and> j \<notin> skip \<and> page other = page cur \<and>
     \<bar>by0 (bbox other) - by0 (bbox cur)\<bar> \<le> 10 \<and> bx0 (bbox other) - bx1 (bbox cur) \<ge> 50"
proof (induction rest)
  case (Cons a rest)
  obtain j' other where a: "a = (j', other)" by (cases a)
  show ?case
  proof (cases "j \<in> set (scan_neighbors skip cur rest)")
    case True
    from Cons.IH [OF True] show ?thesis by auto
  next
    case False
    with Cons.prems a have "j = j' \<and> j' \<notin> skip \<and> page other = page cur \<and>
      \<bar>by0 (bbox other) - by0 (bbox cur)\<bar> \<le> 10 \<and> bx0 (bbox other) - bx1 (bbox cur) \<ge> 50"
      by (auto split: if_splits)
    with a show ?thesis by auto
  qed
qed simp

lemma filter_loop_indices: "fst ` set (filter_loop skip xs) \<subseteq> fst ` set xs - skip"
proof (induction skip xs rule: filter_loop.induct)
  case (2 skip i current rest)
  show ?case
  proof (cases "i \<in> skip")
    case True
    with 2 show ?thesis by auto
  next
    case False
    show ?thesis
    proof (cases "scan_neighbors skip current rest = []")
      case True
      with False 2 show ?thesis by (auto simp: Let_def)
    next
      case ne: False
      with False 2 show ?thesis by (auto simp: Let_def)
    qed
  qed
qed simp

lemma sort_key_le:
  "(page a, by0 (bbox a), bx0 (bbox a)) \<le> (page b, by0 (bbox b), bx0 (bbox b)) \<Longrightarrow>
   page a \<le> page b \<and> (page a = page b \<longrightarrow> by0 (bbox a) \<le> by0 (bbox b))"
  by (auto simp: less_eq_prod_def)

lemma scan_neighbors_complete:
  assumes "sorted (map (\<lambda>x. (page (snd x), by0 (bbox (snd x)), bx0 (bbox (snd x)))) rest)"
    and "\<forall>x \<in> set rest. (page cur, by0 (bbox cur), bx0 (bbox cur))
           \<le> (page (snd x), by0 (bbox (snd x)), bx0 (bbox (snd x)))"
  shows "set (scan_neighbors skip cur rest) =
         {j. \<exists>other. (j, other) \<in> set rest \<and> j \<notin> skip \<and> horizontal_neighbor cur other}"
  using assms
proof (induction rest)
  case Nil
  then show ?case by simp
next
  case (Cons a rest)
  obtain j other where a: "a = (j, other)" by (cases a)
  from Cons.prems(1) a have srt: "sorted (map (\<lambda>x. (page (snd x), by0 (bbox (snd x)), bx0 (bbox (snd x)))) rest)"
    and le: "\<forall>x \<in> set rest. (page other, by0 (bbox other), bx0 (bbox other))
           \<le> (page (snd x), by0 (bbox (snd x)), bx0 (bbox (snd x)))"
    by simp_all
  from Cons.prems(2) a have c0: "(page cur, by0 (bbox cur), bx0 (bbox cur))
           \<le> (page other, by0 (bbox other), bx0 (bbox other))"
    and c1: "\<forall>x \<in> set rest. (page cur, by0 (bbox cur), bx0 (bbox cur))
           \<le> (page (snd x), by0 (bbox (snd x)), bx0 (bbox (snd x)))"
    by simp_all
  note ih = Cons.IH [OF srt c1]
  have later: "page other \<le> page o' \<and> (page other = page o' \<longrightarrow> by0 (bbox other) \<le> by0 (bbox o'))"
    if "(j', o') \<in> set rest" for j' o'
    using le that sort_key_le [of other o'] by force
  have first: "page cur \<le> page other"
    using sort_key_le [OF c0] by simp
  show ?case
  proof (cases "j \<in> skip")
    case True
    then show ?thesis unfolding a using ih by auto
  next
    case ns: False
    show ?thesis
    proof (cases "page other = page cur")
      case False
      have "\<not> horizontal_neighbor cur o'" if "(j', o') \<in> set rest" for j' o'
        using later [OF that] first False by (auto simp: horizontal_neighbor_def)
      moreover have "\<not> horizontal_neighbor cur other"
        using False by (simp add: horizontal_neighbor_def)
      ultimately show ?thesis unfolding a using ns False by auto
    next
      case pg: True
      show ?thesis
      proof (cases "\<bar>by0 (bbox other) - by0 (bbox cur)\<bar> \<le> 10")
        case True
        then show ?thesis unfolding a using ns pg ih
          by (auto simp: horizontal_neighbor_def)
      next
        case far: False
        then have nb: "\<not> horizontal_neighbor cur other"
          by (simp add: horizontal_neighbor_def)
        show ?thesis
        proof (cases "by0 (bbox other) > by0 (bbox cur) + 10")
          case True
          have "\<not> horizontal_neighbor cur o'" if "(j', o') \<in> set rest" for j' o'
            using later [OF that] pg True by (auto simp: horizontal_neighbor_def)
          then show ?thesis unfolding a using ns pg far True nb by auto
        next
          case False
          then show ?thesis unfolding a using ns pg far nb ih by auto
        qed
      qed
    qed
  qed
qed

lemma skip_indices_at_Suc:
  "k < length xs \<Longrightarrow>
   skip_indices_at skip xs (Suc k) =
     (if fst (xs ! k) \<in> skip_indices_at skip xs k then skip_indices_at skip xs k
      else skip_indices_at skip xs k
           \<union> set (scan_neighbors (skip_indices_at skip xs k) (snd (xs ! k)) (drop (Suc k) xs)))"
proof (induction skip xs k rule: skip_indices_at.induct)
  case (1 skip xs)
  then obtain i cur rest where "xs = (i, cur) # rest" by (cases xs) auto
  then show ?case by (auto simp: Let_def)
next
  case (2 skip k)
  then show ?case by simp
next
  case (3 skip i current rest k)
  show ?case
  proof (cases "i \<in> skip")
    case True
    with 3 show ?thesis by simp
  next
    case False
    show ?thesis
    proof (cases "scan_neighbors skip current rest = []")
      case True
      with False 3 show ?thesis by (simp add: Let_def)
    next
      case ne: False
      with False 3 show ?thesis by (simp add: Let_def)
    qed
  qed
qed

lemma skip_indices_at_mono: "k \<le> k' \<Longrightarrow> k' \<le> length xs \<Longrightarrow>
   skip_indices_at skip xs k \<subseteq> skip_indices_at skip xs k'"
proof (induction k')
  case 0
  then show ?case by simp
next
  case (Suc k')
  show ?case
  proof (cases "k = Suc k'")
    case True
    then show ?thesis by simp
  next
    case False
    with Suc have "skip_indices_at skip xs k \<subseteq> skip_indices_at skip xs k'" by simp
    moreover have "skip_indices_at skip xs k' \<subseteq> skip_indices_at skip xs (Suc k')"
      using Suc.prems(2) by (simp add: skip_indices_at_Suc)
    ultimately show ?thesis by blast
  qed
qed

lemma filter_loop_nth:
  "k < length xs \<Longrightarrow> distinct (map fst xs) \<Longrightarrow>
   xs ! k \<in> set (filter_loop skip xs) \<longleftrightarrow>
     fst (xs ! k) \<notin> skip_indices_at skip xs k \<and>
     scan_neighbors (skip_indices_at skip xs k) (snd (xs ! k)) (drop (Suc k) xs) = []"
proof (induction skip xs arbitrary: k rule: filter_loop.induct)
  case (1 skip)
  then show ?case by simp
next
  case (2 skip i current rest)
  from "2.prems"(2) have d: "distinct (map fst rest)" and ni: "i \<notin> fst ` set rest" by simp_all
  have notin: "(i, current) \<notin> set (filter_loop s rest)" for s
    using filter_loop_indices [of s rest] ni by force
  show ?case
  proof (cases k)
    case 0
    show ?thesis
    proof (cases "i \<in> skip")
      case True
      then show ?thesis using 0 notin by simp
    next
      case False
      then show ?thesis using 0 notin by (simp add: Let_def)
    qed
  next
    case (Suc k')
    then have k': "k' < length rest" using "2.prems"(1) by simp
    have ne: "rest ! k' \<noteq> (i, current)"
      using ni k' by (metis fst_conv image_eqI nth_mem)
    show ?thesis
    proof (cases "i \<in> skip")
      case True
      with "2.IH"(1) [OF True k' d] show ?thesis using Suc by simp
    next
      case False
      show ?thesis
      proof (cases "scan_neighbors skip current rest = []")
        case True
        with "2.IH"(3) [OF False refl _ k' d] False ne show ?thesis
          using Suc by (simp add: Let_def)
      next
        case nn: False
        with "2.IH"(2) [OF False refl _ k' d] False show ?thesis
          using Suc by (simp add: Let_def)
      qed
    qed
  qed
qed

lemma filter_loop_filter:
  "distinct (map fst xs) \<Longrightarrow>
   filter_loop skip xs = filter (\<lambda>x. x \<in> set (filter_loop skip xs)) xs"
proof (induction skip xs rule: filter_loop.induct)
  case (1 skip)
  then show ?case by simp
next
  case (2 skip i current rest)
  from "2.prems" have d: "distinct (map fst rest)" and ni: "i \<notin> fst ` set rest" by simp_all
  have notin: "(i, current) \<notin> set (filter_loop s rest)" for s
    using filter_loop_indices [of s rest] ni by force
  have notin': "(i, current) \<notin> set rest" using ni by force
  show ?case
  proof (cases "i \<in> skip")
    case True
    with "2.IH"(1) [OF True d] notin show ?thesis by simp
  next
    case False
    show ?thesis
    proof (cases "scan_neighbors skip current rest = []")
      case True
      have "filter (\<lambda>x. x = (i, current) \<or> x \<in> set (filter_loop skip rest)) rest
            = filter (\<lambda>x. x \<in> set (filter_loop skip rest)) rest"
        using notin' by (intro filter_cong) auto
      with "2.IH"(3) [OF False refl _ d] True False show ?thesis
        by (simp add: Let_def)
    next
      case nn: False
      with "2.IH"(2) [OF False refl _ d] False notin show ?thesis
        by (simp add: Let_def)
    qed
  qed
qed

lemma drop_enumerate_eq: "drop m (enumerate n xs) = enumerate (n + m) (drop m xs)"
proof (cases "m \<le> length xs")
  case True
  then show ?thesis by (simp add: enumerate_eq_zip drop_zip add.assoc)
next
  case False
  then show ?thesis by simp
qed

lemma in_drop_enumerate:
  "(j, other) \<in> set (drop m (enumerate 0 cs)) \<longleftrightarrow> m \<le> j \<and> j < length cs \<and> other = cs ! j"
  unfolding drop_enumerate_eq by (auto simp: in_set_enumerate_eq)

lemma candidates_sorted_sorted:
  "sorted (map (\<lambda>c. (page c, by0 (bbox c), bx0 (bbox c))) (candidates_sorted candidates))"
  unfolding candidates_sorted_def by (rule sorted_sort_key)

lemma scan_sorted_candidates:
  assumes k: "k < length (candidates_sorted candidates)"
  shows "set (scan_neighbors s (candidates_sorted candidates ! k)
                (drop (Suc k) (enumerate 0 (candidates_sorted candidates)))) =
         {j. k < j \<and> j < length (candidates_sorted candidates) \<and> j \<notin> s \<and>
             horizontal_neighbor (candidates_sorted candidates ! k)
               (candidates_sorted candidates ! j)}"
proof -
  define cs where "cs = candidates_sorted candidates"
  let ?key = "\<lambda>c. (page c, by0 (bbox c), bx0 (bbox c))"
  have srt: "sorted (map ?key cs)" unfolding cs_def by (rule candidates_sorted_sorted)
  have "map (\<lambda>x. ?key (snd x)) (drop (Suc k) (enumerate 0 cs))
        = map ?key (map snd (enumerate (Suc k) (drop (Suc k) cs)))"
    unfolding drop_enumerate_eq by (simp add: comp_def del: map_snd_enumerate)
  also have "\<dots> = drop (Suc k) (map ?key cs)" by (simp add: drop_map)
  finally have 1: "sorted (map (\<lambda>x. ?key (snd x)) (drop (Suc k) (enumerate 0 cs)))"
    using srt by (simp add: sorted_wrt_drop)
  have 2: "\<forall>x \<in> set (drop (Suc k) (enumerate 0 cs)). ?key (cs ! k) \<le> ?key (snd x)"
  proof
    fix x assume x: "x \<in> set (drop (Suc k) (enumerate 0 cs))"
    obtain j other where xe: "x = (j, other)" by (cases x)
    with x have j: "Suc k \<le> j" "j < length cs" "other = cs ! j"
      by (simp_all add: in_drop_enumerate)
    from srt have "map ?key cs ! k \<le> map ?key cs ! j"
      using j(1) j(2) by (intro sorted_nth_mono) simp_all
    then show "?key (cs ! k) \<le> ?key (snd x)" using j k xe cs_def by simp
  qed
  have "set (scan_neighbors s (cs ! k) (drop (Suc k) (enumerate 0 cs))) =
        {j. \<exists>other. (j, other) \<in> set (drop (Suc k) (enumerate 0 cs)) \<and> j \<notin> s \<and>
              horizontal_neighbor (cs ! k) other}"
    by (rule scan_neighbors_complete [OF 1 2])
  also have "\<dots> = {j. k < j \<and> j < length cs \<and> j \<notin> s \<and> horizontal_neighbor (cs ! k) (cs ! j)}"
    by (auto simp: in_drop_enumerate)
  finally show ?thesis unfolding cs_def .
qed

text \<open>
  Claim C1, as amended. The filter runs over the candidates sorted by page, Y and X. When
  it reaches a candidate that is not skipped, the neighbours it collects are exactly the
  horizontal neighbours among the later candidates that are not yet skipped (later in the
  sorted order, same page, Y within 10, left edge at least 50 past the candidate's right
  edge); the sorted order makes the two early exits of the scan lose none. If there is
  at least one, all of them are put into the skip set and none of them is in the
  output, and the candidate itself is not in the output either. The output consists of
  exactly the candidates reached unskipped that have no such neighbour, in sorted order.
\<close>

theorem horizontal_neighbors_removed:
  "2 \<le> length candidates \<Longrightarrow>
   (let cs = candidates_sorted candidates;
        n = length cs;
        skip = skip_indices_at {} (enumerate 0 cs);
        neighbors = (\<lambda>k. {j. k < j \<and> j < n \<and> j \<notin> skip k \<and>
                              horizontal_neighbor (cs ! k) (cs ! j)});
        kept = (\<lambda>k. k \<notin> skip k \<and> neighbors k = {})
    in filter_horizontal_table_headers candidates
         = map snd (filter (\<lambda>(k, c). kept k) (enumerate 0 cs)) \<and>
       skip 0 = {} \<and>
       (\<forall>k < n. set (scan_neighbors (skip k) (cs ! k) (drop (Suc k) (enumerate 0 cs)))
                  = neighbors k \<and>
                skip (Suc k) = (if k \<in> skip k then skip k else skip k \<union> neighbors k)) \<and>
       (\<forall>k j. k \<notin> skip k \<and> j \<in> neighbors k \<longrightarrow>
               \<not> kept k \<and> \<not> kept j \<and> j \<in> skip (Suc k)))"
proof -
  assume two: "2 \<le> length candidates"
  define cs where "cs = candidates_sorted candidates"
  define n where "n = length cs"
  define xs where "xs = enumerate 0 cs"
  define skip where "skip = skip_indices_at {} xs"
  define neighbors where "neighbors = (\<lambda>k. {j. k < j \<and> j < n \<and> j \<notin> skip k \<and>
                              horizontal_neighbor (cs ! k) (cs ! j)})"
  define kept where "kept = (\<lambda>k. k \<notin> skip k \<and> neighbors k = {})"
  have len: "length xs = n" by (simp add: xs_def n_def)
  have d: "distinct (map fst xs)" by (simp add: xs_def)
  have nth: "xs ! k = (k, cs ! k)" if "k < n" for k
    using that by (simp add: xs_def n_def nth_enumerate_eq)
  have sc: "set (scan_neighbors (skip k) (cs ! k) (drop (Suc k) xs)) = neighbors k"
    if "k < n" for k
    using scan_sorted_candidates [of k candidates "skip k"] that
    unfolding cs_def [symmetric] n_def [symmetric] xs_def [symmetric] neighbors_def
    by simp
  have step: "skip (Suc k) = (if k \<in> skip k then skip k else skip k \<union> neighbors k)"
    if "k < n" for k
    using skip_indices_at_Suc [of k xs "{}"] that len
    unfolding skip_def [symmetric] by (simp add: nth sc)
  have mono: "skip k \<subseteq> skip k'" if "k \<le> k'" "k' \<le> n" for k k'
    unfolding skip_def using that len by (intro skip_indices_at_mono) simp_all
  have mem: "xs ! k \<in> set (filter_loop {} xs) \<longleftrightarrow> kept k" if "k < n" for k
  proof -
    have "xs ! k \<in> set (filter_loop {} xs) \<longleftrightarrow>
          k \<notin> skip k \<and> scan_neighbors (skip k) (cs ! k) (drop (Suc k) xs) = []"
      using filter_loop_nth [of k xs "{}"] that len d
      unfolding skip_def [symmetric] by (simp add: nth)
    also have "\<dots> \<longleftrightarrow> k \<notin> skip k \<and> neighbors k = {}"
      using sc [OF that] by (metis set_empty)
    finally show ?thesis unfolding kept_def .
  qed
  have "filter_loop {} xs = filter (\<lambda>x. x \<in> set (filter_loop {} xs)) xs"
    using d by (rule filter_loop_filter)
  also have "\<dots> = filter (\<lambda>(k, c). kept k) xs"
  proof (rule filter_cong [OF refl])
    fix x assume "x \<in> set xs"
    then obtain k where k: "k < n" "x = xs ! k"
      using len by (metis in_set_conv_nth)
    then show "(x \<in> set (filter_loop {} xs)) = (case x of (k, c) \<Rightarrow> kept k)"
      using mem [OF k(1)] by (simp add: nth)
  qed
  finally have fl: "filter_loop {} xs = filter (\<lambda>(k, c). kept k) xs" .
  have out: "filter_horizontal_table_headers candidates
         = map snd (filter (\<lambda>(k, c). kept k) xs)"
    using two unfolding filter_horizontal_table_headers_def cs_def [symmetric] xs_def [symmetric]
    by (auto simp: fl)
  have s0: "skip 0 = {}" by (simp add: skip_def)
  have rem: "\<not> kept k \<and> \<not> kept j \<and> j \<in> skip (Suc k)"
    if "k \<notin> skip k \<and> j \<in> neighbors k" for k j
  proof -
    from that have kj: "k < j" "j < n" unfolding neighbors_def by simp_all
    then have k: "k < n" by simp
    from that have 1: "\<not> kept k" unfolding kept_def by blast
    from that step [OF k] have 2: "j \<in> skip (Suc k)" by simp
    have "skip (Suc k) \<subseteq> skip j" using kj by (intro mono) simp_all
    with 2 have "j \<in> skip j" by blast
    then have "\<not> kept j" unfolding kept_def by simp
    with 1 2 show ?thesis by simp
  qed
  have ndef: "{j. k < j \<and> j < n \<and> j \<notin> skip k \<and> horizontal_neighbor (cs ! k) (cs ! j)}
              = neighbors k" for k
    by (simp add: neighbors_def)
  have kdef: "(k \<notin> skip k \<and> neighbors k = {}) = kept k" for k
    by (simp add: kept_def)
  show ?thesis
    unfolding Let_def
    unfolding cs_def [symmetric]
    unfolding n_def [symmetric] xs_def [symmetric]
    unfolding skip_def [symmetric]
    unfolding ndef
    unfolding kdef
  proof (intro conjI allI impI)
    show "filter_horizontal_table_headers candidates
         = map snd (filter (\<lambda>(k, c). kept k) xs)" by (rule out)
    show "skip 0 = {}" by (rule s0)
  next
    fix k assume "k < n"
    then show "set (scan_neighbors (skip k) (cs ! k) (drop (Suc k) xs)) = neighbors k"
      by (rule sc)
  next
    fix k assume "k < n"
    then show "skip (Suc k) = (if k \<in> skip k then skip k else skip k \<union> neighbors k)"
      by (rule step)
  next
    fix k j assume a: "k \<notin> skip k \<and> j \<in> neighbors k"
    from rem [OF a] show "\<not> kept k" "\<not> kept j" "j \<in> skip (Suc k)" by simp_all
  qed
qed

theorem horizontal_neighbors_removed_witness:
  "2 \<le> length
     [\<lparr>ltext = ''Overview'', lsize = 12, is_bold = True, bbox = (72, 300, 160, 318), page = 0,
        spans = [], score = 4, vertical_gap = 0, size_ratio = Finite 1, level = None\<rparr>,
      \<lparr>ltext = ''Date'', lsize = 12, is_bold = True, bbox = (450, 100, 500, 112), page = 0,
        spans = [], score = 4, vertical_gap = 0, size_ratio = Finite 1, level = None\<rparr>,
      \<lparr>ltext = ''Name'', lsize = 12, is_bold = True, bbox = (72, 100, 150, 112), page = 0,
        spans = [], score = 4, vertical_gap = 0, size_ratio = Finite 1, level = None\<rparr>,
      \<lparr>ltext = ''Amount'', lsize = 12, is_bold = True, bbox = (300, 100, 380, 112), page = 0,
        spans = [], score = 4, vertical_gap = 0, size_ratio = Finite 1, level = None\<rparr>] \<and>
   candidates_sorted
     [\<lparr>ltext = ''Overview'', lsize = 12, is_bold = True, bbox = (72, 300, 160, 318), page = 0,
        spans = [], score = 4, vertical_gap = 0, size_ratio = Finite 1, level = None\<rparr>,
      \<lparr>ltext = ''Date'', lsize = 12, is_bold = True, bbox = (450, 100, 500, 112), page = 0,
        spans = [], score = 4, vertical_gap = 0, size_ratio = Finite 1, level = None\<rparr>,
      \<lparr>ltext = ''Name'', lsize = 12, is_bold = True, bbox = (72, 100, 150, 112), page = 0,
        spans = [], score = 4, vertical_gap = 0, size_ratio = Finite 1, level = None\<rparr>,
      \<lparr>ltext = ''Amount'', lsize = 12, is_bold = True, bbox = (300, 100, 380, 112), page = 0,
        spans = [], score = 4, vertical_gap = 0, size_ratio = Finite 1, level = None\<rparr>] =
     [\<lparr>ltext = ''Name'', lsize = 12, is_bold = True, bbox = (72, 100, 150, 112), page = 0,
        spans = [], score = 4, vertical_gap = 0, size_ratio = Finite 1, level = None\<rparr>,
      \<lparr>ltext = ''Amount'', lsize = 12, is_bold = True, bbox = (300, 100, 380, 112), page = 0,
        spans = [], score = 4, vertical_gap = 0, size_ratio = Finite 1, level = None\<rparr>,
      \<lparr>ltext = ''Date'', lsize = 12, is_bold = True, bbox = (450, 100, 500, 112), page = 0,
        spans = [], score = 4, vertical_gap = 0, size_ratio = Finite 1, level = None\<rparr>,
      \<lparr>ltext = ''Overview'', lsize = 12, is_bold = True, bbox = (72, 300, 160, 318), page = 0,
        spans = [], score = 4, vertical_gap = 0, size_ratio = Finite 1, level = None\<rparr>] \<and>
   filter_horizontal_table_headers
     [\<lparr>ltext = ''Overview'', lsize = 12, is_bold = True, bbox = (72, 300, 160, 318), page = 0,
        spans = [], score = 4, vertical_gap = 0, size_ratio = Finite 1, level = None\<rparr>,
      \<lparr>ltext = ''Date'', lsize = 12, is_bold = True, bbox = (450, 100, 500, 112), page = 0,
        spans = [], score = 4, vertical_gap = 0, size_ratio = Finite 1, level = None\<rparr>,
      \<lparr>ltext = ''Name'', lsize = 12, is_bold = True, bbox = (72, 100, 150, 112), page = 0,
        spans = [], score = 4, vertical_gap = 0, size_ratio = Finite 1, level = None\<rparr>,
      \<lparr>ltext = ''Amount'', lsize = 12, is_bold = True, bbox = (300, 100, 380, 112), page = 0,
        spans = [], score = 4, vertical_gap = 0, size_ratio = Finite 1, level = None\<rparr>] =
     [\<lparr>ltext = ''Overview'', lsize = 12, is_bold = True, bbox = (72, 300, 160, 318), page = 0,
        spans = [], score = 4, vertical_gap = 0, size_ratio = Finite 1, level = None\<rparr>] \<and>
   1 \<in> skip_indices_at {} (enumerate 0 (candidates_sorted
     [\<lparr>ltext = ''Overview'', lsize = 12, is_bold = True, bbox = (72, 300, 160, 318), page = 0,
        spans = [], score = 4, vertical_gap = 0, size_ratio = Finite 1, level = None\<rparr>,
      \<lparr>ltext = ''Date'', lsize = 12, is_bold = True, bbox = (450, 100, 500, 112), page = 0,
        spans = [], score = 4, vertical_gap = 0, size_ratio = Finite 1, level = None\<rparr>,
      \<lparr>ltext = ''Name'', lsize = 12, is_bold = True, bbox = (72, 100, 150, 112), page = 0,
        spans = [], score = 4, vertical_gap = 0, size_ratio = Finite 1, level = None\<rparr>,
      \<lparr>ltext = ''Amount'', lsize = 12, is_bold = True, bbox = (300, 100, 380, 112), page = 0,
        spans = [], score = 4, vertical_gap = 0, size_ratio = Finite 1, level = None\<rparr>])) (Suc 0) \<and>
   2 \<in> skip_indices_at {} (enumerate 0 (candidates_sorted
     [\<lparr>ltext = ''Overview'', lsize = 12, is_bold = True, bbox = (72, 300, 160, 318), page = 0,
        spans = [], score = 4, vertical_gap = 0, size_ratio = Finite 1, level = None\<rparr>,
      \<lparr>ltext = ''Date'', lsize = 12, is_bold = True, bbox = (450, 100, 500, 112), page = 0,
        spans = [], score = 4, vertical_gap = 0, size_ratio = Finite 1, level = None\<rparr>,
      \<lparr>ltext = ''Name'', lsize = 12, is_bold = True, bbox = (72, 100, 150, 112), page = 0,
        spans = [], score = 4, vertical_gap = 0, size_ratio = Finite 1, level = None\<rparr>,
      \<lparr>ltext = ''Amount'', lsize = 12, is_bold = True, bbox = (300, 100, 380, 112), page = 0,
        spans = [], score = 4, vertical_gap = 0, size_ratio = Finite 1, level = None\<rparr>])) (Suc 0)"
proof -
  let ?ex = "[\<lparr>ltext = ''Overview'', lsize = 12, is_bold = True, bbox = (72, 300, 160, 318), page = 0,
        spans = [], score = 4, vertical_gap = 0, size_ratio = Finite 1, level = None\<rparr>,
      \<lparr>ltext = ''Date'', lsize = 12, is_bold = True, bbox = (450, 100, 500, 112), page = 0,
        spans = [], score = 4, vertical_gap = 0, size_ratio = Finite 1, level = None\<rparr>,
      \<lparr>ltext = ''Name'', lsize = 12, is_bold = True, bbox = (72, 100, 150, 112), page = 0,
        spans = [], score = 4, vertical_gap = 0, size_ratio = Finite 1, level = None\<rparr>,
      \<lparr>ltext = ''Amount'', lsize = 12, is_bold = True, bbox = (300, 100, 380, 112), page = 0,
        spans = [], score = 4, vertical_gap = 0, size_ratio = Finite 1, level = None\<rparr>]"
  have two: "2 \<le> length ?ex" by code_simp
  have srt: "candidates_sorted ?ex =
     [\<lparr>ltext = ''Name'', lsize = 12, is_bold = True, bbox = (72, 100, 150, 112), page = 0,
        spans = [], score = 4, vertical_gap = 0, size_ratio = Finite 1, level = None\<rparr>,
      \<lparr>ltext = ''Amount'', lsize = 12, is_bold = True, bbox = (300, 100, 380, 112), page = 0,
        spans = [], score = 4, vertical_gap = 0, size_ratio = Finite 1, level = None\<rparr>,
      \<lparr>ltext = ''Date'', lsize = 12, is_bold = True, bbox = (450, 100, 500, 112), page = 0,
        spans = [], score = 4, vertical_gap = 0, size_ratio = Finite 1, level = None\<rparr>,
      \<lparr>ltext = ''Overview'', lsize = 12, is_bold = True, bbox = (72, 300, 160, 318), page = 0,
        spans = [], score = 4, vertical_gap = 0, size_ratio = Finite 1, level = None\<rparr>]" by code_simp
  have out: "filter_horizontal_table_headers ?ex =
     [\<lparr>ltext = ''Overview'', lsize = 12, is_bold = True, bbox = (72, 300, 160, 318), page = 0,
        spans = [], score = 4, vertical_gap = 0, size_ratio = Finite 1, level = None\<rparr>]" by code_simp
  have h0: "(0::nat) \<notin> skip_indices_at {} (enumerate 0 (candidates_sorted ?ex)) 0"
    by code_simp
  have h1: "(0::nat) < 1 \<and> 1 < length (candidates_sorted ?ex) \<and>
      1 \<notin> skip_indices_at {} (enumerate 0 (candidates_sorted ?ex)) 0 \<and>
      horizontal_neighbor (candidates_sorted ?ex ! 0) (candidates_sorted ?ex ! 1)"
    by code_simp
  have h2: "(0::nat) < 2 \<and> 2 < length (candidates_sorted ?ex) \<and>
      2 \<notin> skip_indices_at {} (enumerate 0 (candidates_sorted ?ex)) 0 \<and>
      horizontal_neighbor (candidates_sorted ?ex ! 0) (candidates_sorted ?ex ! 2)"
    by code_simp
  have n1: "1 \<in> {j. 0 < j \<and> j < length (candidates_sorted ?ex) \<and>
      j \<notin> skip_indices_at {} (enumerate 0 (candidates_sorted ?ex)) 0 \<and>
      horizontal_neighbor (candidates_sorted ?ex ! 0) (candidates_sorted ?ex ! j)}"
    apply (rule CollectI)
    apply (rule h1)
    done
  have n2: "2 \<in> {j. 0 < j \<and> j < length (candidates_sorted ?ex) \<and>
      j \<notin> skip_indices_at {} (enumerate 0 (candidates_sorted ?ex)) 0 \<and>
      horizontal_neighbor (candidates_sorted ?ex ! 0) (candidates_sorted ?ex ! j)}"
    apply (rule CollectI)
    apply (rule h2)
    done
  note t = horizontal_neighbors_removed [OF two, unfolded Let_def,
      THEN conjunct2, THEN conjunct2, THEN conjunct2, rule_format]
  note m1 = t [OF conjI [OF h0 n1], THEN conjunct2, THEN conjunct2]
  note m2 = t [OF conjI [OF h0 n2], THEN conjunct2, THEN conjunct2]
  show ?thesis
    by (rule conjI [OF two conjI [OF srt conjI [OF out conjI [OF m1 m2]]]])
qed

text \<open>
  Claim C1 as stated fails: of two headers side by side the second is a horizontal
  neighbour of the first, and the output keeps neither.
\<close>

theorem horizontal_keeps_current_counterexample:
  "scan_neighbors {} \<lparr>ltext = ''Name'', lsize = 12, is_bold = True, bbox = (72, 100, 150, 112), page = 0,
        spans = [], score = 4, vertical_gap = 0, size_ratio = Finite 1, level = None\<rparr> [(1, \<lparr>ltext = ''Amount'', lsize = 12, is_bold = True, bbox = (300, 100, 380, 112), page = 0,
        spans = [], score = 4, vertical_gap = 0, size_ratio = Finite 1, level = None\<rparr>)] = [1] \<and>
   candidates_sorted [\<lparr>ltext = ''Name'', lsize = 12, is_bold = True, bbox = (72, 100, 150, 112), page = 0,
        spans = [], score = 4, vertical_gap = 0, size_ratio = Finite 1, level = None\<rparr>, \<lparr>ltext = ''Amount'', lsize = 12, is_bold = True, bbox = (300, 100, 380, 112), page = 0,
        spans = [], score = 4, vertical_gap = 0, size_ratio = Finite 1, level = None\<rparr>] = [\<lparr>ltext = ''Name'', lsize = 12, is_bold = True, bbox = (72, 100, 150, 112), page = 0,
        spans = [], score = 4, vertical_gap = 0, size_ratio = Finite 1, level = None\<rparr>, \<lparr>ltext = ''Amount'', lsize = 12, is_bold = True, bbox = (300, 100, 380, 112), page = 0,
        spans = [], score = 4, vertical_gap = 0, size_ratio = Finite 1, level = None\<rparr>] \<and>
   filter_horizontal_table_headers [\<lparr>ltext = ''Name'', lsize = 12, is_bold = True, bbox = (72, 100, 150, 112), page = 0,
        spans = [], score = 4, vertical_gap = 0, size_ratio = Finite 1, level = None\<rparr>, \<lparr>ltext = ''Amount'', lsize = 12, is_bold = True, bbox = (300, 100, 380, 112), page = 0,
        spans = [], score = 4, vertical_gap = 0, size_ratio = Finite 1, level = None\<rparr>] = []"
  by code_simp

subsection \<open>Levels and cluster means\<close>

lemma map_of_cluster_sizes:
  "map_of (cluster_sizes labels candidates) a =
   (if a \<in> fst ` set (zip labels (map lsize candidates))
    then Some (map snd (filter (\<lambda>(l, s). l = a) (zip labels (map lsize candidates))))
    else None)"
proof -
  have "map_of (cluster_sizes labels candidates) a
        = map_option (map snd) (map_of (group_by fst (zip labels (map lsize candidates))) a)"
    unfolding cluster_sizes_def by (simp add: map_of_map)
  then show ?thesis by (simp add: map_of_group_by case_prod_unfold)
qed

lemma assign_levels_nth:
  assumes al: "assign_levels fit_predict candidates = Inr leveled"
    and two: "2 \<le> length candidates"
    and labels: "labels = fit_predict (map features_of candidates)
                   (min 3 (max 2 (length candidates div 2)))"
  shows "length labels = length candidates" and "length leveled = length candidates"
    and "\<forall>i < length candidates.
           map_of (level_map (sorted_clusters (cluster_sizes labels candidates))) (labels ! i)
             = level (leveled ! i) \<and>
           level (leveled ! i) \<noteq> None \<and>
           leveled ! i = (candidates ! i)\<lparr>level := level (leveled ! i)\<rparr>"
proof -
  define lm where "lm = level_map (sorted_clusters (cluster_sizes labels candidates))"
  define f :: "nat \<times> candidate \<Rightarrow> error + candidate" where
    "f = (\<lambda>(label, c). case map_of lm label of
                             None \<Rightarrow> Inl KeyError
                           | Some lv \<Rightarrow> Inr (c\<lparr>level := Some lv\<rparr>))"
  from al two show len: "length labels = length candidates"
    unfolding assign_levels_def Let_def labels [symmetric]
    by (simp split: if_splits)
  with al two have c: "collect f (zip labels candidates) = Inr leveled"
    unfolding assign_levels_def Let_def labels [symmetric] lm_def [symmetric] f_def
    by (simp split: if_splits)
  from collect_all2 [OF c] have a2: "list_all2 (\<lambda>x y. f x = Inr y) (zip labels candidates) leveled" .
  then have "length (zip labels candidates) = length leveled" by (rule list_all2_lengthD)
  with len show ll: "length leveled = length candidates" by simp
  show "\<forall>i < length candidates.
           map_of (level_map (sorted_clusters (cluster_sizes labels candidates))) (labels ! i)
             = level (leveled ! i) \<and>
           level (leveled ! i) \<noteq> None \<and>
           leveled ! i = (candidates ! i)\<lparr>level := level (leveled ! i)\<rparr>"
  proof (intro allI impI)
    fix i assume i: "i < length candidates"
    then have "f (zip labels candidates ! i) = Inr (leveled ! i)"
      using a2 len by (simp add: list_all2_conv_all_nth)
    then have "f (labels ! i, candidates ! i) = Inr (leveled ! i)"
      using i len by simp
    then obtain lv where "map_of lm (labels ! i) = Some lv"
      "leveled ! i = (candidates ! i)\<lparr>level := Some lv\<rparr>"
      unfolding f_def by (auto split: option.splits)
    then show "map_of (level_map (sorted_clusters (cluster_sizes labels candidates))) (labels ! i)
             = level (leveled ! i) \<and>
           level (leveled ! i) \<noteq> None \<and>
           leveled ! i = (candidates ! i)\<lparr>level := level (leveled ! i)\<rparr>"
      unfolding lm_def [symmetric] by simp
  qed
qed

text \<open>
  Claim C7. Whatever labels the clustering returns for two or more candidates, the
  assignment gives every candidate the level of its label's cluster and changes nothing
  else; candidates with the same label get the same level; and the levels follow the
  mean font sizes of the clusters: the mean size of the cluster of a candidate at H1 is
  at least that of the cluster of a candidate at H2, which is at least that of the
  cluster of any candidate at H3. No level other than H1, H2, H3 is ever assigned, with
  any number of clusters and also for a single candidate.
\<close>

theorem level_monotonicity:
  "assign_levels fit_predict candidates = Inr leveled \<Longrightarrow>
   (\<forall>c \<in> set leveled. level c \<in> {Some ''H1'', Some ''H2'', Some ''H3''}) \<and>
   (2 \<le> length candidates \<longrightarrow>
     (let labels = fit_predict (map features_of candidates)
                     (min 3 (max 2 (length candidates div 2)));
          cluster = (\<lambda>a. map snd (filter (\<lambda>(l, s). l = a)
                                     (zip labels (map lsize candidates))))
      in length labels = length candidates \<and> length leveled = length candidates \<and>
         (\<forall>i < length candidates.
            leveled ! i = (candidates ! i)\<lparr>level := level (leveled ! i)\<rparr>) \<and>
         (\<forall>i < length candidates. \<forall>j < length candidates.
            (labels ! i = labels ! j \<longrightarrow> level (leveled ! i) = level (leveled ! j)) \<and>
            ((level (leveled ! i) = Some ''H1'' \<and> level (leveled ! j) = Some ''H2'') \<or>
             (level (leveled ! i) = Some ''H2'' \<and> level (leveled ! j) = Some ''H3'') \<or>
             (level (leveled ! i) = Some ''H1'' \<and> level (leveled ! j) = Some ''H3'')
             \<longrightarrow> mean (cluster (labels ! j)) \<le> mean (cluster (labels ! i))))))"
proof (intro conjI ballI impI)
  fix c
  assume "assign_levels fit_predict candidates = Inr leveled" "c \<in> set leveled"
  then show "level c \<in> {Some ''H1'', Some ''H2'', Some ''H3''}" by (rule assign_levels_range)
next
  assume al: "assign_levels fit_predict candidates = Inr leveled"
    and two: "2 \<le> length candidates"
  define labels where
    "labels = fit_predict (map features_of candidates) (min 3 (max 2 (length candidates div 2)))"
  define cluster where
    "cluster = (\<lambda>a. map snd (filter (\<lambda>(l, s). l = a) (zip labels (map lsize candidates))))"
  define lm where "lm = level_map (sorted_clusters (cluster_sizes labels candidates))"
  note n = assign_levels_nth [OF al two labels_def]
  have sz: "map_of (cluster_sizes labels candidates) (labels ! i) = Some (cluster (labels ! i))"
    if "i < length candidates" for i
  proof -
    have "zip labels (map lsize candidates) ! i \<in> set (zip labels (map lsize candidates))"
      using that n(1) by (intro nth_mem) simp
    then have "(labels ! i, lsize (candidates ! i)) \<in> set (zip labels (map lsize candidates))"
      using that n(1) by simp
    then have "labels ! i \<in> fst ` set (zip labels (map lsize candidates))" by force
    then show ?thesis unfolding map_of_cluster_sizes cluster_def by simp
  qed
  have mono: "mean (cluster (labels ! j)) \<le> mean (cluster (labels ! i))"
    if i: "i < length candidates" and j: "j < length candidates"
      and lv: "(level (leveled ! i) = Some ''H1'' \<and> level (leveled ! j) = Some ''H2'') \<or>
             (level (leveled ! i) = Some ''H2'' \<and> level (leveled ! j) = Some ''H3'') \<or>
             (level (leveled ! i) = Some ''H1'' \<and> level (leveled ! j) = Some ''H3'')" for i j
  proof -
    from n(3) i j have li: "map_of lm (labels ! i) = level (leveled ! i)"
      and lj: "map_of lm (labels ! j) = level (leveled ! j)"
      unfolding lm_def by simp_all
    from lv obtain la lb where l: "level (leveled ! i) = Some la" "level (leveled ! j) = Some lb"
      "(la = ''H1'' \<and> lb = ''H2'') \<or> (la = ''H2'' \<and> lb = ''H3'') \<or> (la = ''H1'' \<and> lb = ''H3'')"
      by blast
    show ?thesis
      by (rule cluster_rank_order [OF sz [OF i] sz [OF j] _ _ l(3)])
         (simp_all add: li [unfolded lm_def] lj [unfolded lm_def] l)
  qed
  have same: "level (leveled ! i) = level (leveled ! j)"
    if "i < length candidates" "j < length candidates" "labels ! i = labels ! j" for i j
    using n(3) that by metis
  show "let labels = fit_predict (map features_of candidates)
                     (min 3 (max 2 (length candidates div 2)));
          cluster = (\<lambda>a. map snd (filter (\<lambda>(l, s). l = a)
                                     (zip labels (map lsize candidates))))
      in length labels = length candidates \<and> length leveled = length candidates \<and>
         (\<forall>i < length candidates.
            leveled ! i = (candidates ! i)\<lparr>level := level (leveled ! i)\<rparr>) \<and>
         (\<forall>i < length candidates. \<forall>j < length candidates.
            (labels ! i = labels ! j \<longrightarrow> level (leveled ! i) = level (leveled ! j)) \<and>
            ((level (leveled ! i) = Some ''H1'' \<and> level (leveled ! j) = Some ''H2'') \<or>
             (level (leveled ! i) = Some ''H2'' \<and> level (leveled ! j) = Some ''H3'') \<or>
             (level (leveled ! i) = Some ''H1'' \<and> level (leveled ! j) = Some ''H3'')
             \<longrightarrow> mean (cluster (labels ! j)) \<le> mean (cluster (labels ! i))))"
    unfolding Let_def labels_def [symmetric]
  proof (intro conjI allI impI)
    show "length labels = length candidates" by (rule n(1))
    show "length leveled = length candidates" by (rule n(2))
  next
    fix i assume "i < length candidates"
    with n(3) show "leveled ! i = (candidates ! i)\<lparr>level := level (leveled ! i)\<rparr>"
      by simp
  next
    fix i j assume "i < length candidates" "j < length candidates" "labels ! i = labels ! j"
    then show "level (leveled ! i) = level (leveled ! j)" by (rule same)
  next
    fix i j assume "i < length candidates" "j < length candidates"
      "(level (leveled ! i) = Some ''H1'' \<and> level (leveled ! j) = Some ''H2'') \<or>
       (level (leveled ! i) = Some ''H2'' \<and> level (leveled ! j) = Some ''H3'') \<or>
       (level (leveled ! i) = Some ''H1'' \<and> level (leveled ! j) = Some ''H3'')"
    then have "mean (cluster (labels ! j)) \<le> mean (cluster (labels ! i))" by (rule mono)
    then show "mean (map snd (filter (\<lambda>(l, s). l = labels ! j)
                                (zip labels (map lsize candidates))))
               \<le> mean (map snd (filter (\<lambda>(l, s). l = labels ! i)
                                   (zip labels (map lsize candidates))))"
      unfolding cluster_def .
  qed
qed

theorem level_monotonicity_witness:
  "assign_levels (\<lambda>X k. [1, 0])
     [\<lparr>ltext = ''Scope'', lsize = 14, is_bold = True, bbox = (72, 300, 120, 314), page = 0,
        spans = [], score = 5, vertical_gap = 0, size_ratio = Finite 1.4, level = None\<rparr>,
      \<lparr>ltext = ''Overview'', lsize = 18, is_bold = True, bbox = (72, 100, 160, 118), page = 0,
        spans = [], score = 6, vertical_gap = 0, size_ratio = Finite 1.8, level = None\<rparr>] = Inr
     [\<lparr>ltext = ''Scope'', lsize = 14, is_bold = True, bbox = (72, 300, 120, 314), page = 0,
        spans = [], score = 5, vertical_gap = 0, size_ratio = Finite 1.4,
        level = Some ''H2''\<rparr>,
      \<lparr>ltext = ''Overview'', lsize = 18, is_bold = True, bbox = (72, 100, 160, 118), page = 0,
        spans = [], score = 6, vertical_gap = 0, size_ratio = Finite 1.8,
        level = Some ''H1''\<rparr>] \<and>
   2 \<le> length
     [\<lparr>ltext = ''Scope'', lsize = 14, is_bold = True, bbox = (72, 300, 120, 314), page = 0,
        spans = [], score = 5, vertical_gap = 0, size_ratio = Finite 1.4, level = None\<rparr>,
      \<lparr>ltext = ''Overview'', lsize = 18, is_bold = True, bbox = (72, 100, 160, 118), page = 0,
        spans = [], score = 6, vertical_gap = 0, size_ratio = Finite 1.8, level = None\<rparr>] \<and>
   mean (map snd (filter (\<lambda>(l, s). l = [1, 0::nat] ! 0) (zip [1, 0] (map lsize
     [\<lparr>ltext = ''Scope'', lsize = 14, is_bold = True, bbox = (72, 300, 120, 314), page = 0,
        spans = [], score = 5, vertical_gap = 0, size_ratio = Finite 1.4, level = None\<rparr>,
      \<lparr>ltext = ''Overview'', lsize = 18, is_bold = True, bbox = (72, 100, 160, 118), page = 0,
        spans = [], score = 6, vertical_gap = 0, size_ratio = Finite 1.8, level = None\<rparr>]))))
   \<le> mean (map snd (filter (\<lambda>(l, s). l = [1, 0::nat] ! 1) (zip [1, 0] (map lsize
     [\<lparr>ltext = ''Scope'', lsize = 14, is_bold = True, bbox = (72, 300, 120, 314), page = 0,
        spans = [], score = 5, vertical_gap = 0, size_ratio = Finite 1.4, level = None\<rparr>,
      \<lparr>ltext = ''Overview'', lsize = 18, is_bold = True, bbox = (72, 100, 160, 118), page = 0,
        spans = [], score = 6, vertical_gap = 0, size_ratio = Finite 1.8, level = None\<rparr>]))))"
proof -
  let ?cs = "[\<lparr>ltext = ''Scope'', lsize = 14, is_bold = True, bbox = (72, 300, 120, 314), page = 0,
        spans = [], score = 5, vertical_gap = 0, size_ratio = Finite 1.4, level = None\<rparr>,
      \<lparr>ltext = ''Overview'', lsize = 18, is_bold = True, bbox = (72, 100, 160, 118), page = 0,
        spans = [], score = 6, vertical_gap = 0, size_ratio = Finite 1.8, level = None\<rparr>]"
  let ?out = "[\<lparr>ltext = ''Scope'', lsize = 14, is_bold = True, bbox = (72, 300, 120, 314), page = 0,
        spans = [], score = 5, vertical_gap = 0, size_ratio = Finite 1.4,
        level = Some ''H2''\<rparr>,
      \<lparr>ltext = ''Overview'', lsize = 18, is_bold = True, bbox = (72, 100, 160, 118), page = 0,
        spans = [], score = 6, vertical_gap = 0, size_ratio = Finite 1.8,
        level = Some ''H1''\<rparr>]"
  have a: "assign_levels (\<lambda>X k. [1, 0]) ?cs = Inr ?out" by code_simp
  have two: "2 \<le> length ?cs" by code_simp
  have i: "1 < length ?cs" and j: "0 < length ?cs" by code_simp+
  have lv: "level (?out ! 1) = Some ''H1'' \<and> level (?out ! 0) = Some ''H2''" by code_simp
  note t = level_monotonicity [OF a, THEN conjunct2, THEN mp, OF two, unfolded Let_def]
  note m = t [THEN conjunct2, THEN conjunct2, THEN conjunct2, rule_format, OF i j,
      THEN conjunct2, THEN mp, OF disjI1, OF lv]
  show ?thesis by (rule conjI [OF a conjI [OF two m]])
qed

subsection \<open>Sorting and deduplication of the outline\<close>





















end
